theory Spec2Isabelle
  imports Complex_Main
begin

section \<open>both1d: residual and Jacobian of the 1D advection-diffusion problem\<close>

text \<open>
  The development embeds \<^verbatim>\<open>src/c/ch11/solns/both1d.c\<close>. Conventions of the embedding:
  \<^item> \<^verbatim>\<open>PetscReal\<close> is modelled by \<^typ>\<open>real\<close> (exact arithmetic, no rounding) and
    \<^verbatim>\<open>PetscInt\<close> by \<^typ>\<open>int\<close> (grid indices stay far from the machine bounds);
  \<^item> the function pointers \<^verbatim>\<open>limiter_fcn\<close> and \<^verbatim>\<open>jac_limiter_fcn\<close> are represented by
    the tag of the function they point to, \<^verbatim>\<open>NULL\<close> being the tag \<open>NONE\<close>;
  \<^item> the ghosted input array \<^verbatim>\<open>au\<close> is addressed by global index and holds the
    entries \<open>gxs, ..., gxs + length au - 1\<close>; a read outside of it is a fault of the model;
  \<^item> the division that defines \<^verbatim>\<open>theta\<close> is a fault of the model when its denominator is zero;
  \<^item> the output array \<^verbatim>\<open>aF\<close> and the matrix are stores addressed by global index.
\<close>

subsection \<open>Limiters and the user context\<close>

datatype LimiterType = NONE | CENTERED | VANLEER

definition centered :: "real \<Rightarrow> real" where
  "centered theta = 0.5"

definition vanleer :: "real \<Rightarrow> real" where
  "vanleer theta = (let abstheta = \<bar>theta\<bar> in 0.5 * (theta + abstheta) / (1.0 + abstheta))"

fun limiterptr :: "LimiterType \<Rightarrow> (real \<Rightarrow> real) option" where
  "limiterptr NONE = None"
| "limiterptr CENTERED = Some centered"
| "limiterptr VANLEER = Some vanleer"

record AdCtx =
  eps :: real
  limiter_fcn :: LimiterType
  jac_limiter_fcn :: LimiterType

definition wind_a :: "real \<Rightarrow> real" where
  "wind_a x = 1.0"

subsection \<open>Grid information and the ghosted array\<close>

text \<open>
  The fields of \<^verbatim>\<open>DMDALocalInfo\<close> that the program reads: the global point count \<open>mx\<close>, the
  owned range \<open>xs, ..., xs + xm - 1\<close>, and the first index \<open>gxs\<close> of the ghosted array.
\<close>

record DMDALocalInfo =
  mx :: int
  xs :: int
  xm :: int
  gxs :: int

datatype fault = OutOfRange int | DivisionByZero

definition bindF :: "fault + 'a \<Rightarrow> ('a \<Rightarrow> fault + 'b) \<Rightarrow> fault + 'b" where
  "bindF m f = (case m of Inl e \<Rightarrow> Inl e | Inr v \<Rightarrow> f v)"

definition au_read :: "DMDALocalInfo \<Rightarrow> real list \<Rightarrow> int \<Rightarrow> fault + real" where
  "au_read info au i =
     (if gxs info \<le> i \<and> i < gxs info + int (length au)
      then Inr (au ! nat (i - gxs info)) else Inl (OutOfRange i))"

definition checked_div :: "real \<Rightarrow> real \<Rightarrow> fault + real" where
  "checked_div p q = (if q = 0 then Inl DivisionByZero else Inr (p / q))"

definition hx_of :: "DMDALocalInfo \<Rightarrow> real" where
  "hx_of info = 2.0 / real_of_int (mx info - 1)"

definition scdiag_of :: "DMDALocalInfo \<Rightarrow> AdCtx \<Rightarrow> real" where
  "scdiag_of info usr = (2.0 * eps usr) / hx_of info + 1.0"

subsection \<open>FormFunctionLocal: the residual\<close>

text \<open>Body of the first loop: the value stored into \<^verbatim>\<open>aF[i]\<close>.\<close>

definition cell_value :: "DMDALocalInfo \<Rightarrow> real list \<Rightarrow> AdCtx \<Rightarrow> int \<Rightarrow> fault + real" where
  "cell_value info au usr i =
     (let hx = hx_of info; hx2 = hx * hx; scdiag = scdiag_of info usr in
      if i = 0 then
        bindF (au_read info au i) (\<lambda>ui. Inr (scdiag * (ui - 1.0)))
      else if i = mx info - 1 then
        bindF (au_read info au i) (\<lambda>ui. Inr (scdiag * (ui - 0.0)))
      else
        bindF (if i = 1 then Inr 1.0 else au_read info au (i - 1)) (\<lambda>uW.
        bindF (if i = mx info - 2 then Inr 0.0 else au_read info au (i + 1)) (\<lambda>uE.
        bindF (au_read info au i) (\<lambda>ui.
          let uxx = (uW - 2.0 * ui + uE) / hx2 in Inr (- eps usr * uxx * hx)))))"

function cell_loop ::
  "DMDALocalInfo \<Rightarrow> real list \<Rightarrow> AdCtx \<Rightarrow> int \<Rightarrow> (int \<Rightarrow> real) \<Rightarrow> fault + (int \<Rightarrow> real)" where
  "cell_loop info au usr i aF =
     (if i < xs info + xm info then
        (case cell_value info au usr i of
           Inl e \<Rightarrow> Inl e
         | Inr v \<Rightarrow> cell_loop info au usr (i + 1) (aF(i := v)))
      else Inr aF)"
  by pat_completeness auto
termination
  by (relation "measure (\<lambda>(info, au, usr, i, aF). nat (xs info + xm info - i))") auto

text \<open>The three values a face reads, as the second loop selects them.\<close>

definition u_up_at :: "real \<Rightarrow> DMDALocalInfo \<Rightarrow> real list \<Rightarrow> int \<Rightarrow> fault + real" where
  "u_up_at a info au i =
     (if a \<ge> 0.0 then (if i = 0 then Inr 1.0 else au_read info au i)
      else (if i + 1 = mx info - 1 then Inr 0.0 else au_read info au (i + 1)))"

definition u_dn_at :: "real \<Rightarrow> DMDALocalInfo \<Rightarrow> real list \<Rightarrow> int \<Rightarrow> fault + real" where
  "u_dn_at a info au i =
     (if a \<ge> 0 then (if i + 1 < mx info - 1 then au_read info au (i + 1) else Inr 0.0)
      else au_read info au i)"

definition u_far_at :: "real \<Rightarrow> DMDALocalInfo \<Rightarrow> real list \<Rightarrow> int \<Rightarrow> fault + real" where
  "u_far_at a info au i =
     (if a \<ge> 0 then (if i - 1 > 0 then au_read info au (i - 1) else Inr 1.0)
      else (if i + 2 < mx info - 1 then au_read info au (i + 2) else Inr 0.0))"

definition face_speed :: "(real \<Rightarrow> real) \<Rightarrow> DMDALocalInfo \<Rightarrow> int \<Rightarrow> real" where
  "face_speed wnd info i =
     (let hx = hx_of info; halfx = hx / 2.0; x = - 1.0 + real_of_int i * hx
      in wnd (x + halfx))"

text \<open>
  The flux at the east face of cell \<open>i\<close>. The wind is a parameter \<open>wnd\<close>; the program's
  instance is \<open>wind_a\<close>.
\<close>

definition face_flux ::
  "(real \<Rightarrow> real) \<Rightarrow> DMDALocalInfo \<Rightarrow> real list \<Rightarrow> AdCtx \<Rightarrow> int \<Rightarrow> fault + real" where
  "face_flux wnd info au usr i =
     (let a = face_speed wnd info i in
      bindF (u_up_at a info au i) (\<lambda>u_up.
      let flux = a * u_up in
      case limiterptr (limiter_fcn usr) of
        None \<Rightarrow> Inr flux
      | Some psi \<Rightarrow>
          bindF (u_dn_at a info au i) (\<lambda>u_dn.
          if u_dn \<noteq> u_up then
            bindF (u_far_at a info au i) (\<lambda>u_far.
            bindF (checked_div (u_up - u_far) (u_dn - u_up)) (\<lambda>theta.
              Inr (flux + a * psi theta * (u_dn - u_up))))
          else Inr flux)))"

definition add_flux :: "DMDALocalInfo \<Rightarrow> int \<Rightarrow> real \<Rightarrow> (int \<Rightarrow> real) \<Rightarrow> (int \<Rightarrow> real)" where
  "add_flux info i flux aF =
     (let aF1 = (if i > 0 \<and> i \<ge> xs info then aF(i := aF i + flux) else aF)
      in if i + 1 < mx info - 1 \<and> i + 1 < xs info + xm info
         then aF1(i + 1 := aF1 (i + 1) - flux) else aF1)"

function face_loop ::
  "(real \<Rightarrow> real) \<Rightarrow> DMDALocalInfo \<Rightarrow> real list \<Rightarrow> AdCtx \<Rightarrow> int \<Rightarrow> (int \<Rightarrow> real)
     \<Rightarrow> fault + (int \<Rightarrow> real)" where
  "face_loop wnd info au usr i aF =
     (if i < xs info + xm info then
        (if i < 0 \<or> i = mx info - 1 then face_loop wnd info au usr (i + 1) aF
         else
           (case face_flux wnd info au usr i of
              Inl e \<Rightarrow> Inl e
            | Inr flux \<Rightarrow> face_loop wnd info au usr (i + 1) (add_flux info i flux aF)))
      else Inr aF)"
  by pat_completeness auto
termination
  by (relation "measure (\<lambda>(wnd, info, au, usr, i, aF). nat (xs info + xm info - i))") auto

definition FormFunctionLocalW ::
  "(real \<Rightarrow> real) \<Rightarrow> DMDALocalInfo \<Rightarrow> real list \<Rightarrow> (int \<Rightarrow> real) \<Rightarrow> AdCtx
     \<Rightarrow> fault + (int \<Rightarrow> real)" where
  "FormFunctionLocalW wnd info au aF usr =
     (case cell_loop info au usr (xs info) aF of
        Inl e \<Rightarrow> Inl e
      | Inr aF1 \<Rightarrow> face_loop wnd info au usr (xs info - 1) aF1)"

definition FormFunctionLocal ::
  "DMDALocalInfo \<Rightarrow> real list \<Rightarrow> (int \<Rightarrow> real) \<Rightarrow> AdCtx \<Rightarrow> fault + (int \<Rightarrow> real)" where
  "FormFunctionLocal = FormFunctionLocalW wind_a"

subsection \<open>FormJacobianLocal: the Jacobian\<close>

text \<open>
  The errors of the program. \<open>ConfigurationError\<close> is the \<^verbatim>\<open>SETERRQ1\<close> with code 2 in
  \<^verbatim>\<open>main\<close>, \<open>UnsupportedOperation\<close> the \<^verbatim>\<open>SETERRQ\<close> with code 1 in \<^verbatim>\<open>FormJacobianLocal\<close>, and
  \<open>LibraryError\<close> a nonzero code that a library call returned and \<^verbatim>\<open>CHKERRQ\<close> passed up.
  \<open>DegenerateGrid\<close> is the name the specification uses; no statement of the program raises it.
\<close>

datatype error = ConfigurationError | DegenerateGrid | UnsupportedOperation | LibraryError int

type_synonym Mat = "int \<times> int \<Rightarrow> real"

definition MatZeroEntries :: "Mat \<Rightarrow> Mat" where
  "MatZeroEntries P = (\<lambda>rc. 0)"

text \<open>\<^verbatim>\<open>MatSetValues(P,1,&i,n,col,v,ADD_VALUES)\<close>: the \<open>n\<close> values are added into row \<open>i\<close>.\<close>

fun MatSetValues :: "Mat \<Rightarrow> int \<Rightarrow> int list \<Rightarrow> real list \<Rightarrow> Mat" where
  "MatSetValues P i (c # col) (w # v) = MatSetValues (P((i, c) := P (i, c) + w)) i col v"
| "MatSetValues P i col v = P"

definition jac_row :: "(real \<Rightarrow> real) \<Rightarrow> DMDALocalInfo \<Rightarrow> AdCtx \<Rightarrow> int \<Rightarrow> Mat \<Rightarrow> Mat" where
  "jac_row wnd info usr i P =
     (let hx = hx_of info; halfx = hx / 2.0; scdiag = scdiag_of info usr in
      if i = 0 \<or> i = mx info - 1 then MatSetValues P i [i] [scdiag]
      else
        let P1 = MatSetValues P i [i, i - 1, i + 1]
                   [(2.0 * eps usr) / hx,
                    (if i - 1 > 0 then - eps usr / hx else 0.0),
                    (if i + 1 < mx info - 1 then - eps usr / hx else 0.0)];
            x = - 1.0 + real_of_int i * hx;
            aE = wnd (x + halfx);
            aW = wnd (x - halfx);
            P2 = MatSetValues P1 i
                   [(if aE \<ge> 0.0 then i else i + 1), (if aW \<ge> 0.0 then i - 1 else i)]
                   [(if aE \<ge> 0.0 then aE else (if i + 1 < mx info - 1 then aE else 0.0)),
                    (if aW \<ge> 0.0 then (if i - 1 > 0 then - aW else 0.0) else - aW)]
        in
          if jac_limiter_fcn usr = CENTERED then
            let P3 = MatSetValues P2 i [i + 1, i]
                       (if aE \<ge> 0.0
                        then [(if i + 1 < mx info - 1 then aE / 2.0 else 0.0), - aE / 2.0]
                        else [(if i + 1 < mx info - 1 then - aE / 2.0 else 0.0), aE / 2.0])
            in MatSetValues P3 i [i, i - 1]
                 (if aW \<ge> 0.0
                  then [- aW / 2.0, (if i - 1 > 0 then aW / 2.0 else 0.0)]
                  else [aW / 2.0, (if i - 1 > 0 then - aW / 2.0 else 0.0)])
          else P2)"

function jac_loop ::
  "(real \<Rightarrow> real) \<Rightarrow> DMDALocalInfo \<Rightarrow> AdCtx \<Rightarrow> int \<Rightarrow> Mat \<Rightarrow> Mat" where
  "jac_loop wnd info usr i P =
     (if i < xs info + xm info then jac_loop wnd info usr (i + 1) (jac_row wnd info usr i P)
      else P)"
  by pat_completeness auto
termination
  by (relation "measure (\<lambda>(wnd, info, usr, i, P). nat (xs info + xm info - i))") auto

text \<open>
  The evaluator returns its error code (\<open>None\<close> for 0) together with the matrix as the call
  leaves it. The argument \<open>u\<close> is the trial solution the solver passes in. The matrix is the
  argument \<^verbatim>\<open>P\<close> of the program, the one the entries are written to; the calls of the matrix
  library are taken to succeed, and the final assembly does not change an entry.
\<close>

definition FormJacobianLocalW ::
  "(real \<Rightarrow> real) \<Rightarrow> DMDALocalInfo \<Rightarrow> real list \<Rightarrow> Mat \<Rightarrow> AdCtx \<Rightarrow> error option \<times> Mat" where
  "FormJacobianLocalW wnd info u P usr =
     (if jac_limiter_fcn usr = VANLEER then (Some UnsupportedOperation, P)
      else (None, jac_loop wnd info usr (xs info) (MatZeroEntries P)))"

definition FormJacobianLocal ::
  "DMDALocalInfo \<Rightarrow> real list \<Rightarrow> Mat \<Rightarrow> AdCtx \<Rightarrow> error option \<times> Mat" where
  "FormJacobianLocal = FormJacobianLocalW wind_a"

declare cell_loop.simps [simp del] face_loop.simps [simp del] jac_loop.simps [simp del]

subsection \<open>Workers, halos and the quantities the statements speak about\<close>

text \<open>The entry of the ghosted array that holds global index \<open>k\<close>.\<close>

definition val :: "DMDALocalInfo \<Rightarrow> real list \<Rightarrow> int \<Rightarrow> real" where
  "val info au k = au ! nat (k - gxs info)"

text \<open>A worker's owned range lies inside the grid.\<close>

definition worker_ok :: "DMDALocalInfo \<Rightarrow> bool" where
  "worker_ok info = (0 \<le> xs info \<and> 0 \<le> xm info \<and> xs info + xm info \<le> mx info)"

text \<open>
  The ghosted array holds at least the owned range and \<open>w\<close> cells on either side of it,
  cut off at the ends of the grid.
\<close>

definition halo_ok :: "nat \<Rightarrow> DMDALocalInfo \<Rightarrow> real list \<Rightarrow> bool" where
  "halo_ok w info au =
     (gxs info \<le> max 0 (xs info - int w) \<and>
      min (mx info) (xs info + xm info + int w) \<le> gxs info + int (length au))"

text \<open>The halo width the residual needs: two cells with a limiter, one without.\<close>

definition halo_need :: "nat \<Rightarrow> LimiterType \<Rightarrow> bool" where
  "halo_need w lt = (2 \<le> w \<or> (lt = NONE \<and> 1 \<le> w))"

text \<open>
  Every read of the ghosted array within \<open>w\<close> cells of the owned range, inside the grid,
  succeeds and returns the grid value \<open>v k\<close>.
\<close>

definition reads_as :: "nat \<Rightarrow> DMDALocalInfo \<Rightarrow> real list \<Rightarrow> (int \<Rightarrow> real) \<Rightarrow> bool" where
  "reads_as w info au v =
     (\<forall>k. 0 \<le> k \<longrightarrow> k < mx info \<longrightarrow> xs info - int w \<le> k \<longrightarrow> k < xs info + xm info + int w \<longrightarrow>
          au_read info au k = Inr (v k))"

text \<open>
  The values of the two passes as functions of the grid values \<open>v\<close>, used to express what
  the loops compute: \<open>cell_val\<close> for the first loop, \<open>flux_val\<close> for the flux of a face and
  \<open>res_val\<close> for the finished residual.
\<close>

definition cell_val :: "DMDALocalInfo \<Rightarrow> AdCtx \<Rightarrow> (int \<Rightarrow> real) \<Rightarrow> int \<Rightarrow> real" where
  "cell_val info usr v i =
     (if i = 0 then scdiag_of info usr * (v i - 1)
      else if i = mx info - 1 then scdiag_of info usr * v i
      else - eps usr * (((if i = 1 then 1 else v (i - 1)) - 2 * v i
                          + (if i = mx info - 2 then 0 else v (i + 1)))
                        / (hx_of info * hx_of info)) * hx_of info)"

definition flux_val ::
  "(real \<Rightarrow> real) \<Rightarrow> DMDALocalInfo \<Rightarrow> AdCtx \<Rightarrow> (int \<Rightarrow> real) \<Rightarrow> int \<Rightarrow> real" where
  "flux_val wnd info usr v i =
     (let a = face_speed wnd info i;
          u_up = (if a \<ge> 0 then (if i = 0 then 1 else v i)
                  else (if i + 1 = mx info - 1 then 0 else v (i + 1)));
          u_dn = (if a \<ge> 0 then (if i + 1 < mx info - 1 then v (i + 1) else 0) else v i);
          u_far = (if a \<ge> 0 then (if i - 1 > 0 then v (i - 1) else 1)
                   else (if i + 2 < mx info - 1 then v (i + 2) else 0))
      in case limiterptr (limiter_fcn usr) of
           None \<Rightarrow> a * u_up
         | Some psi \<Rightarrow>
             (if u_dn \<noteq> u_up
              then a * u_up + a * psi ((u_up - u_far) / (u_dn - u_up)) * (u_dn - u_up)
              else a * u_up))"

definition flux_part ::
  "(real \<Rightarrow> real) \<Rightarrow> DMDALocalInfo \<Rightarrow> AdCtx \<Rightarrow> (int \<Rightarrow> real) \<Rightarrow> int \<Rightarrow> int \<Rightarrow> real" where
  "flux_part wnd info usr v i j =
     (if i \<le> j \<and> 0 < j \<and> j \<noteq> mx info - 1 then flux_val wnd info usr v j else 0)
     - (if i \<le> j - 1 \<and> 0 \<le> j - 1 \<and> j < mx info - 1 then flux_val wnd info usr v (j - 1) else 0)"

definition res_val ::
  "(real \<Rightarrow> real) \<Rightarrow> DMDALocalInfo \<Rightarrow> AdCtx \<Rightarrow> (int \<Rightarrow> real) \<Rightarrow> int \<Rightarrow> real" where
  "res_val wnd info usr v j =
     cell_val info usr v j
     + (if 0 < j \<and> j < mx info - 1
        then flux_val wnd info usr v j - flux_val wnd info usr v (j - 1) else 0)"

text \<open>Reading one entry of a result, and the store every example starts from.\<close>

definition entry_at :: "int \<Rightarrow> fault + (int \<Rightarrow> real) \<Rightarrow> fault + real" where
  "entry_at i r = (case r of Inl e \<Rightarrow> Inl e | Inr aF \<Rightarrow> Inr (aF i))"

definition zero_store :: "int \<Rightarrow> real" where
  "zero_store j = 0"

text \<open>Example data: a single worker on three and on four points, and a context with \<open>eps = 1\<close>.\<close>

definition info3 :: DMDALocalInfo where
  "info3 = \<lparr>mx = 3, xs = 0, xm = 3, gxs = 0\<rparr>"

definition info4 :: DMDALocalInfo where
  "info4 = \<lparr>mx = 4, xs = 0, xm = 4, gxs = 0\<rparr>"

definition usr1 :: "LimiterType \<Rightarrow> LimiterType \<Rightarrow> AdCtx" where
  "usr1 l jl = \<lparr>eps = 1, limiter_fcn = l, jac_limiter_fcn = jl\<rparr>"

text \<open>
  A worker that owns \<open>s, ..., s + m - 1\<close> of a grid of \<open>N\<close> points, with \<open>w\<close> halo cells: its
  grid information, and the ghosted array it receives for the global vector \<open>u\<close> (the grid
  is not periodic, so there are no ghost cells beyond its two ends).
\<close>

definition local_info :: "nat \<Rightarrow> int \<Rightarrow> int \<Rightarrow> int \<Rightarrow> DMDALocalInfo" where
  "local_info w N s m = \<lparr>mx = N, xs = s, xm = m, gxs = max 0 (s - int w)\<rparr>"

definition ghosted :: "nat \<Rightarrow> real list \<Rightarrow> int \<Rightarrow> int \<Rightarrow> real list" where
  "ghosted w u s m =
     (let g = max 0 (s - int w); e = min (int (length u)) (s + m + int w)
      in take (nat (e - g)) (drop (nat g) u))"

text \<open>The piece of the residual a worker returns: the owned entries of \<open>aF\<close>.\<close>

definition worker_residual ::
  "(real \<Rightarrow> real) \<Rightarrow> nat \<Rightarrow> AdCtx \<Rightarrow> real list \<Rightarrow> (int \<Rightarrow> real) \<Rightarrow> int \<times> int \<Rightarrow> fault + real list" where
  "worker_residual wnd w usr u aF sm =
     (case FormFunctionLocalW wnd (local_info w (int (length u)) (fst sm) (snd sm))
             (ghosted w u (fst sm) (snd sm)) aF usr of
        Inl e \<Rightarrow> Inl e
      | Inr aF' \<Rightarrow> Inr (map aF' [fst sm..fst sm + snd sm - 1]))"

text \<open>The owned ranges of workers of widths \<open>ms\<close>, from \<open>s\<close> on, and the pieces put together.\<close>

fun ranges :: "int \<Rightarrow> nat list \<Rightarrow> (int \<times> int) list" where
  "ranges s [] = []"
| "ranges s (m # ms) = (s, int m) # ranges (s + int m) ms"

fun gather :: "(fault + real list) list \<Rightarrow> fault + real list" where
  "gather [] = Inr []"
| "gather (p # ps) =
     (case p of Inl e \<Rightarrow> Inl e
      | Inr a \<Rightarrow> (case gather ps of Inl e \<Rightarrow> Inl e | Inr b \<Rightarrow> Inr (a @ b)))"

text \<open>The single worker that owns the whole grid.\<close>

definition whole :: "real list \<Rightarrow> DMDALocalInfo" where
  "whole u = \<lparr>mx = int (length u), xs = 0, xm = int (length u), gxs = 0\<rparr>"

text \<open>The zero matrix, and the entries that the loop body of the Jacobian adds for row \<open>i\<close>.\<close>

definition zero_mat :: Mat where
  "zero_mat rc = 0"

definition row_entries :: "(real \<Rightarrow> real) \<Rightarrow> DMDALocalInfo \<Rightarrow> AdCtx \<Rightarrow> int \<Rightarrow> Mat" where
  "row_entries wnd info usr i = jac_row wnd info usr i (\<lambda>rc. 0)"

text \<open>The derivative of component \<open>k\<close> of the trial solution with respect to component \<open>j\<close>.\<close>

definition dv :: "nat \<Rightarrow> int \<Rightarrow> real" where
  "dv j k = (if k = int j then 1 else 0)"

text \<open>
  The worker that owns cell 3 of five points, with an array that begins at cell 1: the owned
  cell, one halo cell on either side, and in front of them whatever the memory holds.
\<close>

definition stray_info :: DMDALocalInfo where
  "stray_info = \<lparr>mx = 5, xs = 3, xm = 1, gxs = 1\<rparr>"

text \<open>The wind that is zero everywhere.\<close>

definition no_wind :: "real \<Rightarrow> real" where
  "no_wind x = 0"

text \<open>A single worker on five points.\<close>

definition info5 :: DMDALocalInfo where
  "info5 = \<lparr>mx = 5, xs = 0, xm = 5, gxs = 0\<rparr>"

text \<open>
  The part of \<^verbatim>\<open>main\<close> that checks the options and sets the grid up (lines 74 to 92). The
  option values are arguments: \<open>e\<close> for \<^verbatim>\<open>-eps\<close>, the two limiters, and \<open>fd\<close> for
  \<^verbatim>\<open>snesfdset || snesfdcolorset\<close>. The outcome \<open>dm\<close> of the library calls that create the grid
  (\<^verbatim>\<open>DMDACreate1d\<close>, \<^verbatim>\<open>DMSetFromOptions\<close>, \<^verbatim>\<open>DMSetUp\<close>) is an argument too: the error code they
  return, or the point count of the grid they deliver. The result is the user context and the
  point count.
\<close>

definition main_setup ::
  "real \<Rightarrow> LimiterType \<Rightarrow> LimiterType \<Rightarrow> bool \<Rightarrow> int + int \<Rightarrow> error + AdCtx \<times> int" where
  "main_setup e limiter jac_limiter fd dm =
     (if e \<le> 0.0 then Inl ConfigurationError
      else
        let usr = \<lparr>eps = e, limiter_fcn = limiter,
                   jac_limiter_fcn = (if fd then NONE else jac_limiter)\<rparr>
        in case dm of Inl code \<Rightarrow> Inl (LibraryError code) | Inr N \<Rightarrow> Inr (usr, N))"

text \<open>The coordinate of grid point \<open>i\<close>, the expression \<^verbatim>\<open>-1.0 + i * hx\<close> of the program.\<close>

definition x_of :: "DMDALocalInfo \<Rightarrow> int \<Rightarrow> real" where
  "x_of info i = - 1.0 + real_of_int i * hx_of info"

section \<open>Properties\<close>

subsection \<open>What the two loops of the residual compute\<close>

lemma bindF_simps [simp]: "bindF (Inr v) f = f v" "bindF (Inl e) f = Inl e"
  by (simp_all add: bindF_def)

lemma au_read_ok:
  "reads_as w info au v \<Longrightarrow> 0 \<le> k \<Longrightarrow> xs info - int w \<le> k \<Longrightarrow> k < mx info \<Longrightarrow>
   k < xs info + xm info + int w \<Longrightarrow> au_read info au k = Inr (v k)"
  by (simp add: reads_as_def)

lemma halo_ok_reads_as: "halo_ok w info au \<Longrightarrow> reads_as w info au (val info au)"
  by (auto simp: halo_ok_def reads_as_def au_read_def val_def)

lemma cell_value_ok:
  assumes "worker_ok info" "reads_as w info au v" "1 \<le> w" "xs info \<le> i" "i < xs info + xm info"
  shows "cell_value info au usr i = Inr (cell_val info usr v i)"
proof -
  have r: "\<And>k. i - 1 \<le> k \<Longrightarrow> k \<le> i + 1 \<Longrightarrow> 0 \<le> k \<Longrightarrow> k < mx info \<Longrightarrow>
             au_read info au k = Inr (v k)"
    using assms by (intro au_read_ok[of w]) (auto simp: worker_ok_def)
  have bnd: "0 \<le> i" "i < mx info" using assms by (auto simp: worker_ok_def)
  show ?thesis
    using bnd by (simp add: cell_value_def cell_val_def Let_def r)
qed


lemma cell_loop_closed:
  "worker_ok info \<Longrightarrow> reads_as w info au v \<Longrightarrow> 1 \<le> w \<Longrightarrow> xs info \<le> i \<Longrightarrow>
   cell_loop info au usr i aF =
     Inr (\<lambda>j. if i \<le> j \<and> j < xs info + xm info then cell_val info usr v j
               else aF j)"
proof (induction info au usr i aF rule: cell_loop.induct)
  case (1 info au usr i aF)
  show ?case
  proof (cases "i < xs info + xm info")
    case True
    have cv: "cell_value info au usr i = Inr (cell_val info usr v i)"
      using cell_value_ok[OF "1.prems" True] .
    have ih: "cell_loop info au usr (i + 1) (aF(i := cell_val info usr v i)) =
           Inr (\<lambda>j. if i + 1 \<le> j \<and> j < xs info + xm info then cell_val info usr v j
                     else (aF(i := cell_val info usr v i)) j)"
      using "1.IH"[OF True cv] "1.prems" by (simp add: fun_upd_def)
    show ?thesis
      using True by (subst cell_loop.simps) (auto simp: cv ih)
  next
    case False
    then show ?thesis by (subst cell_loop.simps) (auto intro!: ext)
  qed
qed

lemma checked_div_ok [simp]: "q \<noteq> 0 \<Longrightarrow> checked_div p q = Inr (p / q)"
  by (simp add: checked_div_def)

lemma face_flux_ok:
  assumes "worker_ok info" "reads_as w info au v" "halo_need w (limiter_fcn usr)"
    and "xs info - 1 \<le> i" "i < xs info + xm info" "0 \<le> i" "i \<noteq> mx info - 1"
  shows "face_flux wnd info au usr i = Inr (flux_val wnd info usr v i)"
proof -
  have w1: "1 \<le> w" using assms(3) by (auto simp: halo_need_def)
  have bnd: "i + 1 < mx info" using assms by (auto simp: worker_ok_def)
  have r1: "\<And>k. i \<le> k \<Longrightarrow> k \<le> i + 1 \<Longrightarrow> au_read info au k = Inr (v k)"
    using assms w1 bnd by (intro au_read_ok[of w]) (auto simp: worker_ok_def)
  have r2: "\<And>k. limiter_fcn usr \<noteq> NONE \<Longrightarrow> i - 1 \<le> k \<Longrightarrow> k \<le> i + 2 \<Longrightarrow> 0 \<le> k \<Longrightarrow>
                k < mx info \<Longrightarrow> au_read info au k = Inr (v k)"
    using assms bnd by (intro au_read_ok[of w]) (auto simp: worker_ok_def halo_need_def)
  show ?thesis
  proof (cases "limiter_fcn usr")
    case NONE
    then show ?thesis
      using assms(6) bnd
      by (simp add: face_flux_def flux_val_def u_up_at_def Let_def r1)
  next
    case CENTERED
    then have ne: "limiter_fcn usr \<noteq> NONE" by simp
    show ?thesis
      using assms(6) bnd CENTERED
      by (simp add: face_flux_def flux_val_def u_up_at_def u_dn_at_def u_far_at_def
            Let_def r1 r2[OF ne])
  next
    case VANLEER
    then have ne: "limiter_fcn usr \<noteq> NONE" by simp
    show ?thesis
      using assms(6) bnd VANLEER
      by (simp add: face_flux_def flux_val_def u_up_at_def u_dn_at_def u_far_at_def
            Let_def r1 r2[OF ne])
  qed
qed

lemma face_loop_closed:
  "worker_ok info \<Longrightarrow> reads_as w info au v \<Longrightarrow> halo_need w (limiter_fcn usr) \<Longrightarrow>
   xs info - 1 \<le> i \<Longrightarrow>
   face_loop wnd info au usr i aF =
     Inr (\<lambda>j. if xs info \<le> j \<and> j < xs info + xm info
               then aF j + flux_part wnd info usr v i j else aF j)"
proof (induction wnd info au usr i aF rule: face_loop.induct)
  case (1 wnd info au usr i aF)
  show ?case
  proof (cases "i < xs info + xm info")
    case False
    then show ?thesis
      by (subst face_loop.simps) (auto simp: flux_part_def)
  next
    case True
    show ?thesis
    proof (cases "i < 0 \<or> i = mx info - 1")
      case skip: True
      have ih: "face_loop wnd info au usr (i + 1) aF =
         Inr (\<lambda>j. if xs info \<le> j \<and> j < xs info + xm info
               then aF j + flux_part wnd info usr v (i + 1) j else aF j)"
        using "1.IH"(1)[OF True skip] "1.prems" by simp
      have eq: "\<And>j. xs info \<le> j \<Longrightarrow> j < xs info + xm info \<Longrightarrow>
          flux_part wnd info usr v (i + 1) j = flux_part wnd info usr v i j"
        using skip True "1.prems"(1) by (auto simp: flux_part_def worker_ok_def)
      have feq: "(\<lambda>j. if xs info \<le> j \<and> j < xs info + xm info
               then aF j + flux_part wnd info usr v (i + 1) j else aF j) =
            (\<lambda>j. if xs info \<le> j \<and> j < xs info + xm info
               then aF j + flux_part wnd info usr v i j else aF j)"
        by (rule ext) (simp add: eq)
      show ?thesis
        by (subst face_loop.simps) (simp only: True skip if_True ih feq)
    next
      case noskip: False
      have ff: "face_flux wnd info au usr i = Inr (flux_val wnd info usr v i)"
        using face_flux_ok[OF "1.prems"(1,2,3,4) True] noskip by simp
      have ih: "face_loop wnd info au usr (i + 1)
                  (add_flux info i (flux_val wnd info usr v i) aF) =
         Inr (\<lambda>j. if xs info \<le> j \<and> j < xs info + xm info
               then add_flux info i (flux_val wnd info usr v i) aF j
                      + flux_part wnd info usr v (i + 1) j
               else add_flux info i (flux_val wnd info usr v i) aF j)"
        using "1.IH"(2)[OF True noskip ff] "1.prems" by simp
      have eq: "\<And>j. add_flux info i (flux_val wnd info usr v i) aF j =
           (if xs info \<le> j \<and> j < xs info + xm info
            then aF j + flux_part wnd info usr v i j
                  - flux_part wnd info usr v (i + 1) j
            else aF j)"
        using noskip True "1.prems"(1,4)
        by (auto simp: add_flux_def flux_part_def worker_ok_def Let_def)
      have feq: "(\<lambda>j. if xs info \<le> j \<and> j < xs info + xm info
               then add_flux info i (flux_val wnd info usr v i) aF j
                      + flux_part wnd info usr v (i + 1) j
               else add_flux info i (flux_val wnd info usr v i) aF j) =
            (\<lambda>j. if xs info \<le> j \<and> j < xs info + xm info
               then aF j + flux_part wnd info usr v i j else aF j)"
        by (rule ext) (simp add: eq)
      show ?thesis
        by (subst face_loop.simps) (simp only: True noskip if_True if_False ih ff feq sum.case)
    qed
  qed
qed

lemma FormFunctionLocalW_closed:
  assumes "worker_ok info" "reads_as w info au v" "halo_need w (limiter_fcn usr)"
  shows "FormFunctionLocalW wnd info au aF usr =
     Inr (\<lambda>j. if xs info \<le> j \<and> j < xs info + xm info then res_val wnd info usr v j else aF j)"
proof -
  have w1: "1 \<le> w" using assms(3) by (auto simp: halo_need_def)
  let ?aF1 = "\<lambda>j. if xs info \<le> j \<and> j < xs info + xm info then cell_val info usr v j else aF j"
  have c: "cell_loop info au usr (xs info) aF = Inr ?aF1"
    using cell_loop_closed[OF assms(1,2) w1, of "xs info" usr aF] by simp
  have f: "face_loop wnd info au usr (xs info - 1) ?aF1 =
     Inr (\<lambda>j. if xs info \<le> j \<and> j < xs info + xm info
               then ?aF1 j + flux_part wnd info usr v (xs info - 1) j else ?aF1 j)"
    using face_loop_closed[OF assms, of "xs info - 1" wnd ?aF1] by simp
  have eq: "\<And>j. xs info \<le> j \<Longrightarrow> j < xs info + xm info \<Longrightarrow>
     cell_val info usr v j + flux_part wnd info usr v (xs info - 1) j = res_val wnd info usr v j"
    using assms(1) by (auto simp: flux_part_def res_val_def worker_ok_def)
  have feq: "(\<lambda>j. if xs info \<le> j \<and> j < xs info + xm info
               then ?aF1 j + flux_part wnd info usr v (xs info - 1) j else ?aF1 j) =
     (\<lambda>j. if xs info \<le> j \<and> j < xs info + xm info then res_val wnd info usr v j else aF j)"
    by (rule ext) (simp add: eq)
  show ?thesis
    by (simp only: FormFunctionLocalW_def c f feq sum.case)
qed

lemma hx_pos: "2 \<le> mx info \<Longrightarrow> 0 < hx_of info"
  by (simp add: hx_of_def)

subsection \<open>Boundary rows\<close>

text \<open>
  Claim C3. For every limiter, on a grid of at least two points, a worker whose ghosted array
  is wide enough finishes the residual, and the rows of the two boundary nodes it owns are
  \<open>scdiag * (u\<^sub>0 - 1)\<close> and \<open>scdiag * (u\<^bsub>N-1\<^esub> - 0)\<close> with \<open>scdiag = 2 * eps / h + 1\<close>: the face
  loop leaves what the cell loop stored there.
\<close>

theorem boundary_rows:
  assumes "worker_ok info" "2 \<le> mx info" "halo_ok w info au" "halo_need w (limiter_fcn usr)"
  shows "\<exists>aF1 aF2. cell_loop info au usr (xs info) aF = Inr aF1 \<and>
           face_loop wind_a info au usr (xs info - 1) aF1 = Inr aF2 \<and>
           FormFunctionLocal info au aF usr = Inr aF2 \<and>
           (xs info = 0 \<and> 0 < xm info \<longrightarrow>
              aF2 0 = scdiag_of info usr * (val info au 0 - 1) \<and> aF2 0 = aF1 0) \<and>
           (xs info + xm info = mx info \<and> 0 < xm info \<longrightarrow>
              aF2 (mx info - 1) = scdiag_of info usr * (val info au (mx info - 1) - 0) \<and>
              aF2 (mx info - 1) = aF1 (mx info - 1)) \<and>
           scdiag_of info usr = 2 * eps usr / hx_of info + 1"
proof -
  have ra: "reads_as w info au (val info au)" using assms(3) by (rule halo_ok_reads_as)
  have w1: "1 \<le> w" using assms(4) by (auto simp: halo_need_def)
  let ?v = "val info au"
  let ?aF1 = "\<lambda>j. if xs info \<le> j \<and> j < xs info + xm info then cell_val info usr ?v j else aF j"
  let ?aF2 = "\<lambda>j. if xs info \<le> j \<and> j < xs info + xm info then res_val wind_a info usr ?v j else aF j"
  have c: "cell_loop info au usr (xs info) aF = Inr ?aF1"
    using cell_loop_closed[OF assms(1) ra w1, of "xs info" usr aF] by simp
  have F: "FormFunctionLocal info au aF usr = Inr ?aF2"
    unfolding FormFunctionLocal_def by (rule FormFunctionLocalW_closed[OF assms(1) ra assms(4)])
  have f: "face_loop wind_a info au usr (xs info - 1) ?aF1 = Inr ?aF2"
    using F c by (simp add: FormFunctionLocal_def FormFunctionLocalW_def)
  have b0: "xs info = 0 \<and> 0 < xm info \<longrightarrow>
              ?aF2 0 = scdiag_of info usr * (val info au 0 - 1) \<and> ?aF2 0 = ?aF1 0"
    by (simp add: res_val_def cell_val_def)
  have bN: "xs info + xm info = mx info \<and> 0 < xm info \<longrightarrow>
              ?aF2 (mx info - 1) = scdiag_of info usr * (val info au (mx info - 1) - 0) \<and>
              ?aF2 (mx info - 1) = ?aF1 (mx info - 1)"
    using assms(2) by (auto simp add: res_val_def cell_val_def)
  have sc: "scdiag_of info usr = 2 * eps usr / hx_of info + 1"
    by (simp add: scdiag_of_def)
  show ?thesis
    using c f F b0 bN sc by blast
qed

theorem boundary_rows_witness:
  "\<exists>aF2. FormFunctionLocal info3 [5, 0, 7] zero_store (usr1 VANLEER NONE) = Inr aF2 \<and>
          aF2 0 = scdiag_of info3 (usr1 VANLEER NONE) * (val info3 [5, 0, 7] 0 - 1) \<and>
          aF2 2 = scdiag_of info3 (usr1 VANLEER NONE) * (val info3 [5, 0, 7] 2 - 0)"
proof -
  have h1: "worker_ok info3" by (simp add: worker_ok_def info3_def)
  have h2: "2 \<le> mx info3" by (simp add: info3_def)
  have h3: "halo_ok 2 info3 [5, 0, 7]" by (simp add: halo_ok_def info3_def)
  have h4: "halo_need 2 (limiter_fcn (usr1 VANLEER NONE))" by (simp add: halo_need_def)
  have e: "xs info3 = 0" "xm info3 = 3" "mx info3 = 3" by (simp_all add: info3_def)
  show ?thesis
    using boundary_rows[OF h1 h2 h3 h4, of zero_store] by (auto simp: e)
qed

subsection \<open>The cell-centred pass at interior cells\<close>

text \<open>
  Claim C6, as the program has it. At an owned interior cell \<open>i\<close> the first loop stores
  \<open>- eps * (uW - 2 * u\<^sub>i + uE) / h\<close> where \<open>uW\<close> is the array entry \<open>i - 1\<close> except that it is
  the boundary value 1 when \<open>i = 1\<close>, and \<open>uE\<close> is the array entry \<open>i + 1\<close> except that it is
  the boundary value 0 when \<open>i = N - 2\<close>. With the array entries at both neighbours, as the
  claim is worded, the equation fails on the three point grid with array \<open>[5, 0, 7]\<close>.
\<close>

theorem cell_pass_interior:
  assumes "worker_ok info" "halo_ok w info au" "1 \<le> w"
    and "xs info \<le> i" "i < xs info + xm info" "0 < i" "i < mx info - 1"
  shows "entry_at i (cell_loop info au usr (xs info) aF) =
           Inr (- eps usr * ((if i = 1 then 1 else val info au (i - 1)) - 2 * val info au i
                             + (if i = mx info - 2 then 0 else val info au (i + 1)))
                / hx_of info)"
proof -
  have ra: "reads_as w info au (val info au)" using assms(2) by (rule halo_ok_reads_as)
  have h: "hx_of info \<noteq> 0" using assms(6,7) hx_pos[of info] by simp
  have c: "cell_loop info au usr (xs info) aF =
      Inr (\<lambda>j. if xs info \<le> j \<and> j < xs info + xm info then cell_val info usr (val info au) j
                else aF j)"
    using cell_loop_closed[OF assms(1) ra assms(3), of "xs info" usr aF] by simp
  show ?thesis
    using assms(4-7) h by (simp add: c entry_at_def cell_val_def)
qed

theorem cell_pass_interior_witness:
  "entry_at 1 (cell_loop info3 [5, 0, 7] (usr1 NONE NONE) (xs info3) zero_store) = Inr (- 1)"
proof -
  have h1: "worker_ok info3" by (simp add: worker_ok_def info3_def)
  have h2: "halo_ok 1 info3 [5, 0, 7]" by (simp add: halo_ok_def info3_def)
  have h3: "(1::nat) \<le> 1" by simp
  have h4: "xs info3 \<le> 1" "1 < xs info3 + xm info3" "(0::int) < 1" "1 < mx info3 - 1"
    by (simp_all add: info3_def)
  show ?thesis
    using cell_pass_interior[OF h1 h2 h3 h4, of "usr1 NONE NONE" zero_store]
    by (simp add: info3_def usr1_def hx_of_def val_def)
qed

theorem cell_pass_interior_counterexample:
  "entry_at 1 (cell_loop info3 [5, 0, 7] (usr1 NONE NONE) (xs info3) zero_store) \<noteq>
     Inr (- eps (usr1 NONE NONE) * (val info3 [5, 0, 7] (1 - 1) - 2 * val info3 [5, 0, 7] 1
                                     + val info3 [5, 0, 7] (1 + 1)) / hx_of info3)"
  by (simp add: cell_loop.simps cell_value_def info3_def usr1_def entry_at_def au_read_def
        hx_of_def scdiag_of_def val_def)

subsection \<open>Faces whose downwind and upwind values agree\<close>

lemma bindF_eq_Inl:
  "bindF m f = Inl e \<Longrightarrow> m = Inl e \<or> (\<exists>x. m = Inr x \<and> f x = Inl e)"
  by (cases m) simp_all

lemma au_read_no_div: "au_read info au k \<noteq> Inl DivisionByZero"
  by (simp add: au_read_def)

lemma u_up_at_no_div: "u_up_at a info au i \<noteq> Inl DivisionByZero"
  by (simp add: u_up_at_def au_read_no_div)

lemma u_dn_at_no_div: "u_dn_at a info au i \<noteq> Inl DivisionByZero"
  by (simp add: u_dn_at_def au_read_no_div)

lemma u_far_at_no_div: "u_far_at a info au i \<noteq> Inl DivisionByZero"
  by (simp add: u_far_at_def au_read_no_div)

lemma limited_no_div:
  "bindF (u_dn_at a info au i) (\<lambda>u_dn.
          if u_dn \<noteq> u_up then
            bindF (u_far_at a info au i) (\<lambda>u_far.
            bindF (checked_div (u_up - u_far) (u_dn - u_up)) (\<lambda>theta.
              Inr (flux + a * psi theta * (u_dn - u_up))))
          else Inr flux) \<noteq> Inl DivisionByZero"
proof
  assume "bindF (u_dn_at a info au i) (\<lambda>u_dn.
          if u_dn \<noteq> u_up then
            bindF (u_far_at a info au i) (\<lambda>u_far.
            bindF (checked_div (u_up - u_far) (u_dn - u_up)) (\<lambda>theta.
              Inr (flux + a * psi theta * (u_dn - u_up))))
          else Inr flux) = Inl DivisionByZero"
  from bindF_eq_Inl[OF this] u_dn_at_no_div obtain u_dn where
    d: "(if u_dn \<noteq> u_up then
            bindF (u_far_at a info au i) (\<lambda>u_far.
            bindF (checked_div (u_up - u_far) (u_dn - u_up)) (\<lambda>theta.
              Inr (flux + a * psi theta * (u_dn - u_up))))
          else Inr flux) = Inl DivisionByZero"
    by blast
  then have ne: "u_dn \<noteq> u_up" by (auto split: if_splits)
  with d have "bindF (u_far_at a info au i) (\<lambda>u_far.
            bindF (checked_div (u_up - u_far) (u_dn - u_up)) (\<lambda>theta.
              Inr (flux + a * psi theta * (u_dn - u_up)))) = Inl DivisionByZero"
    by simp
  from bindF_eq_Inl[OF this] u_far_at_no_div obtain u_far where
    "bindF (checked_div (u_up - u_far) (u_dn - u_up)) (\<lambda>theta.
              Inr (flux + a * psi theta * (u_dn - u_up))) = Inl DivisionByZero"
    by blast
  with ne show False by simp
qed

text \<open>
  Claim C8. The flux of a face never ends in the fault of a division by zero, and when the
  upwind value is \<open>p\<close> and (a limiter being selected) the downwind value is \<open>p\<close> too, the
  flux is the first-order upwind flux \<open>speed * p\<close>, for every limiter and every wind.
\<close>

theorem equal_values_upwind_flux:
  "face_flux wnd info au usr i \<noteq> Inl DivisionByZero \<and>
   (u_up_at (face_speed wnd info i) info au i = Inr p \<and>
    (limiter_fcn usr \<noteq> NONE \<longrightarrow> u_dn_at (face_speed wnd info i) info au i = Inr p)
    \<longrightarrow> face_flux wnd info au usr i = Inr (face_speed wnd info i * p))"
proof
  show "face_flux wnd info au usr i \<noteq> Inl DivisionByZero"
  proof
    assume "face_flux wnd info au usr i = Inl DivisionByZero"
    then have "bindF (u_up_at (face_speed wnd info i) info au i) (\<lambda>u_up.
      case limiterptr (limiter_fcn usr) of
        None \<Rightarrow> Inr (face_speed wnd info i * u_up)
      | Some psi \<Rightarrow>
          bindF (u_dn_at (face_speed wnd info i) info au i) (\<lambda>u_dn.
          if u_dn \<noteq> u_up then
            bindF (u_far_at (face_speed wnd info i) info au i) (\<lambda>u_far.
            bindF (checked_div (u_up - u_far) (u_dn - u_up)) (\<lambda>theta.
              Inr (face_speed wnd info i * u_up + face_speed wnd info i * psi theta * (u_dn - u_up))))
          else Inr (face_speed wnd info i * u_up))) = Inl DivisionByZero"
      by (simp add: face_flux_def Let_def)
    from bindF_eq_Inl[OF this] u_up_at_no_div obtain u_up where
      d: "(case limiterptr (limiter_fcn usr) of
        None \<Rightarrow> Inr (face_speed wnd info i * u_up)
      | Some psi \<Rightarrow>
          bindF (u_dn_at (face_speed wnd info i) info au i) (\<lambda>u_dn.
          if u_dn \<noteq> u_up then
            bindF (u_far_at (face_speed wnd info i) info au i) (\<lambda>u_far.
            bindF (checked_div (u_up - u_far) (u_dn - u_up)) (\<lambda>theta.
              Inr (face_speed wnd info i * u_up + face_speed wnd info i * psi theta * (u_dn - u_up))))
          else Inr (face_speed wnd info i * u_up))) = Inl DivisionByZero"
      by blast
    show False
    proof (cases "limiterptr (limiter_fcn usr)")
      case None
      with d show False by simp
    next
      case (Some psi)
      with d limited_no_div show False by simp
    qed
  qed
next
  show "u_up_at (face_speed wnd info i) info au i = Inr p \<and>
    (limiter_fcn usr \<noteq> NONE \<longrightarrow> u_dn_at (face_speed wnd info i) info au i = Inr p)
    \<longrightarrow> face_flux wnd info au usr i = Inr (face_speed wnd info i * p)"
    by (cases "limiter_fcn usr") (simp_all add: face_flux_def Let_def)
qed

text \<open>A face of the four point grid whose two values agree, under the van Leer limiter.\<close>

theorem equal_values_upwind_flux_witness:
  "u_up_at (face_speed wind_a info4 1) info4 [1, 3, 3, 0] 1 = Inr 3 \<and>
   u_dn_at (face_speed wind_a info4 1) info4 [1, 3, 3, 0] 1 = Inr 3 \<and>
   face_flux wind_a info4 [1, 3, 3, 0] (usr1 VANLEER NONE) 1 = Inr (face_speed wind_a info4 1 * 3)"
proof -
  have up: "u_up_at (face_speed wind_a info4 1) info4 [1, 3, 3, 0] 1 = Inr 3"
    by (simp add: u_up_at_def face_speed_def wind_a_def au_read_def info4_def)
  have dn: "u_dn_at (face_speed wind_a info4 1) info4 [1, 3, 3, 0] 1 = Inr 3"
    by (simp add: u_dn_at_def face_speed_def wind_a_def au_read_def info4_def)
  show ?thesis
    using equal_values_upwind_flux[of wind_a info4 "[1, 3, 3, 0]" "usr1 VANLEER NONE" 1 3] up dn
    by simp
qed

subsection \<open>Workers on a partition of the grid\<close>

lemma ghosted_reads:
  assumes "0 \<le> s" "0 \<le> m" "s + m \<le> int (length u)"
  shows "reads_as w (local_info w (int (length u)) s m) (ghosted w u s m) (\<lambda>k. u ! nat k)"
proof -
  let ?g = "max 0 (s - int w)" and ?e = "min (int (length u)) (s + m + int w)"
  have g0: "0 \<le> ?g" by simp
  have len: "int (length (ghosted w u s m)) = ?e - ?g"
    using assms by (auto simp: ghosted_def Let_def min_def max_def)
  have nth: "ghosted w u s m ! nat (k - ?g) = u ! nat k" if "?g \<le> k" "k < ?e" for k
  proof -
    have a: "nat (k - ?g) < nat (?e - ?g)" using that by linarith
    have b: "nat ?g + nat (k - ?g) = nat k" using that g0 by linarith
    have c: "nat ?g + nat (k - ?g) < length u" using that g0 by linarith
    show ?thesis
      using a b c by (simp add: ghosted_def Let_def)
  qed
  show ?thesis
    unfolding reads_as_def au_read_def
  proof (intro allI impI)
    fix k
    assume k: "0 \<le> k" "k < mx (local_info w (int (length u)) s m)"
      "xs (local_info w (int (length u)) s m) - int w \<le> k"
      "k < xs (local_info w (int (length u)) s m) + xm (local_info w (int (length u)) s m) + int w"
    then have r: "?g \<le> k" "k < ?e" by (auto simp: local_info_def)
    have gx: "gxs (local_info w (int (length u)) s m) = ?g" by (simp add: local_info_def)
    show "(if gxs (local_info w (int (length u)) s m) \<le> k \<and>
              k < gxs (local_info w (int (length u)) s m) + int (length (ghosted w u s m))
           then Inr (ghosted w u s m ! nat (k - gxs (local_info w (int (length u)) s m)))
           else Inl (OutOfRange k)) = Inr (u ! nat k)"
      using r nth[OF r] by (simp only: gx len) simp
  qed
qed

lemma res_val_mx:
  assumes "mx info = mx info'"
  shows "res_val wnd info usr v j = res_val wnd info' usr v j"
  unfolding res_val_def cell_val_def flux_val_def face_speed_def hx_of_def scdiag_of_def
  by (simp only: assms)

lemma worker_residual_closed:
  assumes "0 \<le> s" "0 \<le> m" "s + m \<le> int (length u)" "halo_need w (limiter_fcn usr)"
  shows "worker_residual wnd w usr u aF (s, m) =
           Inr (map (res_val wnd (whole u) usr (\<lambda>k. u ! nat k)) [s..s + m - 1])"
proof -
  let ?info = "local_info w (int (length u)) s m"
  have ok: "worker_ok ?info" using assms by (simp add: worker_ok_def local_info_def)
  have F: "FormFunctionLocalW wnd ?info (ghosted w u s m) aF usr =
     Inr (\<lambda>j. if xs ?info \<le> j \<and> j < xs ?info + xm ?info
               then res_val wnd ?info usr (\<lambda>k. u ! nat k) j else aF j)"
    by (rule FormFunctionLocalW_closed[OF ok ghosted_reads[OF assms(1,2,3)] assms(4)])
  have mxe: "mx ?info = mx (whole u)" by (simp add: local_info_def whole_def)
  have xe: "xs ?info = s" "xm ?info = m" by (simp_all add: local_info_def)
  show ?thesis
    by (simp add: worker_residual_def F xe res_val_mx[OF mxe])
qed

lemma upto_append: "0 \<le> a \<Longrightarrow> 0 \<le> b \<Longrightarrow> [s..s + a - 1] @ [s + a..s + a + b - 1] = [s..s + a + b - 1]"
proof (cases "b = 0")
  case True
  then show ?thesis by simp
next
  case False
  assume "0 \<le> a" "0 \<le> b"
  with False have "s \<le> s + a" "s + a \<le> s + a + b - 1" by auto
  from upto_split1[OF this] show ?thesis by simp
qed

lemma gather_workers:
  "0 \<le> s \<Longrightarrow> s + int (sum_list ms) \<le> int (length u) \<Longrightarrow> halo_need w (limiter_fcn usr) \<Longrightarrow>
   gather (map (worker_residual wnd w usr u aF) (ranges s ms)) =
     Inr (map (res_val wnd (whole u) usr (\<lambda>k. u ! nat k)) [s..s + int (sum_list ms) - 1])"
proof (induction ms arbitrary: s)
  case Nil
  then show ?case by simp
next
  case (Cons m ms)
  have hd: "worker_residual wnd w usr u aF (s, int m) =
              Inr (map (res_val wnd (whole u) usr (\<lambda>k. u ! nat k)) [s..s + int m - 1])"
    using Cons.prems by (intro worker_residual_closed) auto
  have tl: "gather (map (worker_residual wnd w usr u aF) (ranges (s + int m) ms)) =
     Inr (map (res_val wnd (whole u) usr (\<lambda>k. u ! nat k))
            [s + int m..s + int m + int (sum_list ms) - 1])"
    using Cons.prems by (intro Cons.IH) auto
  have "[s..s + int m - 1] @ [s + int m..s + int m + int (sum_list ms) - 1] =
        [s..s + int (sum_list (m # ms)) - 1]"
    using upto_append[of "int m" "int (sum_list ms)" s] by (simp add: add.assoc)
  then show ?case
    by (simp add: hd tl flip: map_append)
qed

text \<open>
  Claim C2, as the program has it. The ghosted array of a worker holds \<open>w\<close> halo cells on
  either side. With \<open>w = 2\<close>, the stencil width the grid is created with (or \<open>w = 1\<close> when no
  limiter is selected), the residual pieces of the workers of any partition of the grid into
  contiguous ranges, put one after the other, are the residual of a single worker that owns
  the whole grid. With a limiter and \<open>w = 1\<close> the face left of an owned range reads the array
  two cells left of the range, outside of the array, and the value found there goes into the
  residual of the first owned cell.
\<close>

theorem pieces_make_whole:
  assumes "sum_list ms = length u" "halo_need w (limiter_fcn usr)"
  shows "gather (map (worker_residual wind_a w usr u aF) (ranges 0 ms)) =
           worker_residual wind_a w usr u aF' (0, int (length u))"
proof -
  have a: "gather (map (worker_residual wind_a w usr u aF) (ranges 0 ms)) =
     Inr (map (res_val wind_a (whole u) usr (\<lambda>k. u ! nat k)) [0..0 + int (sum_list ms) - 1])"
    using assms by (intro gather_workers) auto
  have b: "worker_residual wind_a w usr u aF' (0, int (length u)) =
     Inr (map (res_val wind_a (whole u) usr (\<lambda>k. u ! nat k)) [0..0 + int (length u) - 1])"
    using assms by (intro worker_residual_closed) auto
  show ?thesis by (simp add: a b assms(1))
qed

lemmas eval_defs = worker_residual_def local_info_def ghosted_def FormFunctionLocalW_def
  cell_loop.simps face_loop.simps cell_value_def face_flux_def add_flux_def
  u_up_at_def u_dn_at_def u_far_at_def face_speed_def wind_a_def au_read_def
  hx_of_def scdiag_of_def usr1_def zero_store_def checked_div_def upto.simps centered_def vanleer_def Let_def

text \<open>
  The global vector \<open>[5, 0, 2, 4, 7]\<close> on five points with the van Leer limiter, and the worker
  that owns cell 3 alone. The face left of its range takes its far upwind value from cell 1.
\<close>

lemma five_points_single_worker:
  "worker_residual wind_a w (usr1 VANLEER NONE) [5, 0, 2, 4, 7] zero_store (0, 5) =
     Inr [20, - 7, 3, 13, 35]"
  by (simp add: eval_defs)

lemma five_points_wide_halo:
  "worker_residual wind_a 2 (usr1 VANLEER NONE) [5, 0, 2, 4, 7] zero_store (3, 1) = Inr [13]"
  by (simp add: eval_defs)

lemma five_points_narrow_halo_left:
  "worker_residual wind_a 1 (usr1 VANLEER NONE) [5, 0, 2, 4, 7] zero_store (0, 3) = Inr [20, - 7, 3]"
  by (simp add: eval_defs)

lemma five_points_narrow_halo:
  "worker_residual wind_a 1 (usr1 VANLEER NONE) [5, 0, 2, 4, 7] zero_store (3, 1) = Inl (OutOfRange 1)"
  by (simp add: eval_defs)

lemma five_points_stray_value:
  "entry_at 3 (FormFunctionLocal stray_info [100, 2, 4, 7] zero_store (usr1 VANLEER NONE)) = Inr 14"
  by (simp add: eval_defs stray_info_def FormFunctionLocal_def entry_at_def)

text \<open>
  With two halo cells the pieces of the ranges \<open>0, 1, 2\<close>, \<open>3\<close> and \<open>4\<close> make the residual of the
  single worker, and the piece of cell 3 is 13: the flux of the face left of the range is in it.
\<close>

theorem pieces_make_whole_witness:
  "gather (map (worker_residual wind_a 2 (usr1 VANLEER NONE) [5, 0, 2, 4, 7] zero_store)
             (ranges 0 [3, 1, 1])) =
     worker_residual wind_a 2 (usr1 VANLEER NONE) [5, 0, 2, 4, 7] zero_store
       (0, int (length [5, 0, 2, 4, 7 :: real])) \<and>
   worker_residual wind_a 2 (usr1 VANLEER NONE) [5, 0, 2, 4, 7] zero_store (3, 1) = Inr [13]"
proof -
  have h1: "sum_list [3, 1, 1] = length [5, 0, 2, 4, 7 :: real]" by simp
  have h2: "halo_need 2 (limiter_fcn (usr1 VANLEER NONE))" by (simp add: halo_need_def)
  show ?thesis
    by (rule conjI[OF pieces_make_whole[OF h1 h2] five_points_wide_halo])
qed

text \<open>
  With one halo cell the worker of cell 3 reads cell 1 outside of its array \<open>[2, 4, 7]\<close>, so
  the pieces are not the residual of the single worker, whose entry for cell 3 is 13. What
  the worker then stores for cell 3 depends on what lies in front of its array: with 100
  there it is 14.
\<close>

theorem pieces_make_whole_counterexample:
  "gather (map (worker_residual wind_a 1 (usr1 VANLEER NONE) [5, 0, 2, 4, 7] zero_store)
             (ranges 0 [3, 1, 1])) \<noteq>
     worker_residual wind_a 1 (usr1 VANLEER NONE) [5, 0, 2, 4, 7] zero_store (0, 5) \<and>
   worker_residual wind_a 1 (usr1 VANLEER NONE) [5, 0, 2, 4, 7] zero_store (0, 5) =
     Inr [20, - 7, 3, 13, 35] \<and>
   entry_at 3 (FormFunctionLocal stray_info [100, 2, 4, 7] zero_store (usr1 VANLEER NONE)) = Inr 14"
  by (simp add: five_points_narrow_halo five_points_narrow_halo_left five_points_single_worker
        five_points_stray_value del: One_nat_def)

subsection \<open>What the loop of the Jacobian computes\<close>

lemma MatSetValues_add:
  "MatSetValues P i col v rc = P rc + MatSetValues (\<lambda>rc. 0) i col v rc"
proof (induction col arbitrary: P v)
  case Nil
  then show ?case by simp
next
  case (Cons c col)
  show ?case
  proof (cases v)
    case Nil
    then show ?thesis by simp
  next
    case (Cons w v')
    have a: "MatSetValues (P((i, c) := P (i, c) + w)) i col v' rc =
        (P((i, c) := P (i, c) + w)) rc + MatSetValues (\<lambda>rc. 0) i col v' rc"
      by (rule Cons.IH)
    have b: "MatSetValues ((\<lambda>rc. 0)((i, c) := 0 + w)) i col v' rc =
        ((\<lambda>rc. 0)((i, c) := 0 + w)) rc + MatSetValues (\<lambda>rc. 0) i col v' rc"
      by (rule Cons.IH)
    show ?thesis using a b by (simp add: Cons)
  qed
qed

lemma MatSetValues_other_row:
  "fst rc \<noteq> i \<Longrightarrow> MatSetValues P i col v rc = P rc"
proof (induction col arbitrary: P v)
  case Nil
  then show ?case by simp
next
  case (Cons c col)
  show ?case
  proof (cases v)
    case Nil
    then show ?thesis by simp
  next
    case (Cons w v')
    have "MatSetValues (P((i, c) := P (i, c) + w)) i col v' rc = (P((i, c) := P (i, c) + w)) rc"
      using Cons.prems by (intro Cons.IH)
    then show ?thesis using Cons.prems by (cases rc) (simp add: Cons)
  qed
qed

lemma jac_row_add:
  "jac_row wnd info usr i P rc = P rc + row_entries wnd info usr i rc"
proof (cases "i = 0 \<or> i = mx info - 1")
  case True
  show ?thesis
    unfolding jac_row_def row_entries_def Let_def
    by (simp only: True if_True MatSetValues_add[of P])
next
  case False
  show ?thesis
  proof (cases "jac_limiter_fcn usr = CENTERED")
    case c: True
    show ?thesis
      unfolding jac_row_def row_entries_def Let_def
      by (simp only: False c if_True if_False simp_thms
            MatSetValues_add[of "MatSetValues p j cs vs" for p j cs vs]
            MatSetValues_add[of P] add.assoc)
  next
    case c: False
    show ?thesis
      unfolding jac_row_def row_entries_def Let_def
      by (simp only: False c if_True if_False simp_thms
            MatSetValues_add[of "MatSetValues p j cs vs" for p j cs vs]
            MatSetValues_add[of P] add.assoc)
  qed
qed

lemma row_entries_other_row:
  assumes "fst rc \<noteq> i"
  shows "row_entries wnd info usr i rc = 0"
proof -
  have o: "\<And>Q col v. MatSetValues Q i col v rc = Q rc"
    using assms by (rule MatSetValues_other_row)
  show ?thesis
  proof (cases "i = 0 \<or> i = mx info - 1")
    case True
    show ?thesis
      unfolding jac_row_def row_entries_def Let_def
      by (simp only: True if_True o)
  next
    case False
    show ?thesis
    proof (cases "jac_limiter_fcn usr = CENTERED")
      case c: True
      show ?thesis
        unfolding jac_row_def row_entries_def Let_def
        by (simp only: False c if_True if_False simp_thms o)
    next
      case c: False
      show ?thesis
        unfolding jac_row_def row_entries_def Let_def
        by (simp only: False c if_True if_False simp_thms o)
    qed
  qed
qed

lemma jac_loop_closed:
  "jac_loop wnd info usr i P =
     (\<lambda>rc. P rc + (if i \<le> fst rc \<and> fst rc < xs info + xm info
                    then row_entries wnd info usr (fst rc) rc else 0))"
proof (induction wnd info usr i P rule: jac_loop.induct)
  case (1 wnd info usr i P)
  show ?case
  proof (cases "i < xs info + xm info")
    case True
    have ih: "jac_loop wnd info usr (i + 1) (jac_row wnd info usr i P) =
       (\<lambda>rc. jac_row wnd info usr i P rc + (if i + 1 \<le> fst rc \<and> fst rc < xs info + xm info
                    then row_entries wnd info usr (fst rc) rc else 0))"
      by (rule "1.IH"[OF True])
    have eq: "\<And>rc. jac_row wnd info usr i P rc + (if i + 1 \<le> fst rc \<and> fst rc < xs info + xm info
                    then row_entries wnd info usr (fst rc) rc else 0) =
            P rc + (if i \<le> fst rc \<and> fst rc < xs info + xm info
                    then row_entries wnd info usr (fst rc) rc else 0)"
    proof -
      fix rc
      show "jac_row wnd info usr i P rc + (if i + 1 \<le> fst rc \<and> fst rc < xs info + xm info
                    then row_entries wnd info usr (fst rc) rc else 0) =
            P rc + (if i \<le> fst rc \<and> fst rc < xs info + xm info
                    then row_entries wnd info usr (fst rc) rc else 0)"
      proof (cases "fst rc = i")
        case e: True
        then show ?thesis using True by (simp add: jac_row_add)
      next
        case ne: False
        then show ?thesis by (simp add: jac_row_add row_entries_other_row)
      qed
    qed
    show ?thesis
      by (subst jac_loop.simps) (simp only: True if_True ih eq)
  next
    case False
    then show ?thesis by (subst jac_loop.simps) auto
  qed
qed

subsection \<open>The unsupported limiter of the Jacobian\<close>

text \<open>
  Claim C4. With van Leer as the limiter of the Jacobian the evaluator returns the error
  \<open>UnsupportedOperation\<close>, whatever the grid, the trial solution, the matrix and the limiter
  of the residual are; with none or centered it returns no error.
\<close>

theorem vanleer_jacobian_unsupported:
  "fst (FormJacobianLocal info u P (usr\<lparr>jac_limiter_fcn := VANLEER\<rparr>)) = Some UnsupportedOperation \<and>
   fst (FormJacobianLocal info u P (usr\<lparr>jac_limiter_fcn := NONE\<rparr>)) = None \<and>
   fst (FormJacobianLocal info u P (usr\<lparr>jac_limiter_fcn := CENTERED\<rparr>)) = None"
  by (simp add: FormJacobianLocal_def FormJacobianLocalW_def)

text \<open>
  Claim C10. An evaluation of the Jacobian that returns an error leaves the matrix as it was
  before the call: the limiter is checked before the matrix is zeroed.
\<close>

theorem failed_jacobian_keeps_matrix:
  "fst (FormJacobianLocal info u P usr) \<noteq> None \<Longrightarrow> snd (FormJacobianLocal info u P usr) = P"
  by (simp add: FormJacobianLocal_def FormJacobianLocalW_def split: if_splits)

theorem failed_jacobian_keeps_matrix_witness:
  "fst (FormJacobianLocal info3 [5, 0, 7] zero_mat (usr1 NONE VANLEER)) \<noteq> None \<and>
   snd (FormJacobianLocal info3 [5, 0, 7] zero_mat (usr1 NONE VANLEER)) = zero_mat"
proof -
  have h: "fst (FormJacobianLocal info3 [5, 0, 7] zero_mat (usr1 NONE VANLEER)) \<noteq> None"
    by (simp add: FormJacobianLocal_def FormJacobianLocalW_def usr1_def)
  show ?thesis
    using h failed_jacobian_keeps_matrix[OF h] by simp
qed

subsection \<open>The Jacobian and the trial solution\<close>

text \<open>
  Claim C9. The evaluator of the Jacobian returns the same error code and the same matrix
  for any two trial solutions: it never reads the trial solution.
\<close>

theorem jacobian_ignores_solution:
  "FormJacobianLocal info u P usr = FormJacobianLocal info u' P usr"
  by (simp add: FormJacobianLocal_def FormJacobianLocalW_def)

subsection \<open>The Jacobian is the derivative of the residual\<close>

lemma flux_val_wind_a:
  "limiter_fcn usr \<noteq> VANLEER \<Longrightarrow>
   flux_val wind_a info usr v i =
     (if i = 0 then 1 else v i)
     + (if limiter_fcn usr = CENTERED
        then ((if i + 1 < mx info - 1 then v (i + 1) else 0) - (if i = 0 then 1 else v i)) / 2
        else 0)"
  by (cases "limiter_fcn usr")
     (simp_all add: flux_val_def face_speed_def wind_a_def centered_def Let_def)

lemma row_entries_wind_a:
  "row_entries wind_a info usr i (i, c) =
     (if i = 0 \<or> i = mx info - 1 then (if c = i then scdiag_of info usr else 0)
      else (if c = i then 2 * eps usr / hx_of info + 1 else 0)
         + (if c = i - 1 \<and> 0 < i - 1 then - eps usr / hx_of info - 1 else 0)
         + (if c = i + 1 \<and> i + 1 < mx info - 1 then - eps usr / hx_of info else 0)
         + (if jac_limiter_fcn usr = CENTERED
            then (if c = i + 1 \<and> i + 1 < mx info - 1 then 1 / 2 else 0)
               + (if c = i then - 1 else 0)
               + (if c = i - 1 \<and> 0 < i - 1 then 1 / 2 else 0)
            else 0))"
  by (simp add: row_entries_def jac_row_def wind_a_def Let_def)

lemma deriv_entry:
  assumes "j < length u" "0 \<le> k"
  shows "((\<lambda>t. (u[j := t]) ! nat k) has_real_derivative (if k = int j then 1 else 0)) (at x)"
proof (cases "k = int j")
  case True
  then have "(\<lambda>t. (u[j := t]) ! nat k) = (\<lambda>t. t)" using assms by (auto intro!: ext)
  then show ?thesis using True by simp
next
  case False
  then have "nat k \<noteq> j" using assms by auto
  then have "(\<lambda>t. (u[j := t]) ! nat k) = (\<lambda>t. u ! nat k)" by (auto intro!: ext)
  then show ?thesis using False by simp
qed

lemma deriv_cell_val:
  assumes d: "\<And>k. 0 \<le> k \<Longrightarrow> ((\<lambda>t. V t k) has_real_derivative D k) (at x)" and "0 \<le> i"
  shows "((\<lambda>t. cell_val info usr (V t) i) has_real_derivative
          (if i = 0 then scdiag_of info usr * D i
           else if i = mx info - 1 then scdiag_of info usr * D i
           else - eps usr * (((if i = 1 then 0 else D (i - 1)) - 2 * D i
                          + (if i = mx info - 2 then 0 else D (i + 1)))
                        / (hx_of info * hx_of info)) * hx_of info)) (at x)"
proof -
  have di: "((\<lambda>t. V t i) has_real_derivative D i) (at x)" using assms(2) by (rule d)
  have dW: "((\<lambda>t. if i = 1 then 1 else V t (i - 1)) has_real_derivative
              (if i = 1 then 0 else D (i - 1))) (at x)" if "i \<noteq> 0"
  proof (cases "i = 1")
    case True
    then show ?thesis by simp
  next
    case False
    with that assms(2) have "0 \<le> i - 1" by simp
    from d[OF this] False show ?thesis by simp
  qed
  have dE: "((\<lambda>t. if i = mx info - 2 then 0 else V t (i + 1)) has_real_derivative
              (if i = mx info - 2 then 0 else D (i + 1))) (at x)"
  proof (cases "i = mx info - 2")
    case True
    then show ?thesis by simp
  next
    case False
    have "0 \<le> i + 1" using assms(2) by simp
    from d[OF this] False show ?thesis by simp
  qed
  show ?thesis
  proof (cases "i = 0")
    case True
    have "((\<lambda>t. scdiag_of info usr * (V t i - 1)) has_real_derivative
             scdiag_of info usr * (D i - 0)) (at x)"
      by (intro DERIV_cmult DERIV_diff di DERIV_const)
    then show ?thesis using True by (simp add: cell_val_def)
  next
    case nz: False
    show ?thesis
    proof (cases "i = mx info - 1")
      case True
      have "((\<lambda>t. scdiag_of info usr * V t i) has_real_derivative
             scdiag_of info usr * D i) (at x)"
        by (intro DERIV_cmult di)
      then show ?thesis using True nz by (simp add: cell_val_def)
    next
      case False
      have "((\<lambda>t. - eps usr * (((if i = 1 then 1 else V t (i - 1)) - 2 * V t i
                          + (if i = mx info - 2 then 0 else V t (i + 1)))
                        / (hx_of info * hx_of info)) * hx_of info) has_real_derivative
            - eps usr * (((if i = 1 then 0 else D (i - 1)) - 2 * D i
                          + (if i = mx info - 2 then 0 else D (i + 1)))
                        / (hx_of info * hx_of info)) * hx_of info) (at x)"
        by (intro DERIV_cmult_right DERIV_cmult DERIV_cdivide DERIV_add DERIV_diff
              dW[OF nz] dE di)
      then show ?thesis using False nz by (simp add: cell_val_def)
    qed
  qed
qed

lemma deriv_flux_val:
  assumes d: "\<And>k. 0 \<le> k \<Longrightarrow> ((\<lambda>t. V t k) has_real_derivative D k) (at x)" and "0 \<le> i"
    and "limiter_fcn usr \<noteq> VANLEER"
  shows "((\<lambda>t. flux_val wind_a info usr (V t) i) has_real_derivative
           ((if i = 0 then 0 else D i)
     + (if limiter_fcn usr = CENTERED
        then ((if i + 1 < mx info - 1 then D (i + 1) else 0) - (if i = 0 then 0 else D i)) / 2
        else 0))) (at x)"
proof -
  have up: "((\<lambda>t. if i = 0 then 1 else V t i) has_real_derivative (if i = 0 then 0 else D i)) (at x)"
    using d[OF assms(2)] by (cases "i = 0") simp_all
  have dn: "((\<lambda>t. if i + 1 < mx info - 1 then V t (i + 1) else 0) has_real_derivative
              (if i + 1 < mx info - 1 then D (i + 1) else 0)) (at x)"
  proof (cases "i + 1 < mx info - 1")
    case True
    have "0 \<le> i + 1" using assms(2) by simp
    from d[OF this] True show ?thesis by simp
  next
    case False
    then show ?thesis by simp
  qed
  have cor: "((\<lambda>t. if limiter_fcn usr = CENTERED
        then ((if i + 1 < mx info - 1 then V t (i + 1) else 0) - (if i = 0 then 1 else V t i)) / 2
        else 0) has_real_derivative
      (if limiter_fcn usr = CENTERED
        then ((if i + 1 < mx info - 1 then D (i + 1) else 0) - (if i = 0 then 0 else D i)) / 2
        else 0)) (at x)"
  proof (cases "limiter_fcn usr = CENTERED")
    case True
    have "((\<lambda>t. ((if i + 1 < mx info - 1 then V t (i + 1) else 0) - (if i = 0 then 1 else V t i)) / 2)
            has_real_derivative
           ((if i + 1 < mx info - 1 then D (i + 1) else 0) - (if i = 0 then 0 else D i)) / 2) (at x)"
      by (intro DERIV_cdivide DERIV_diff up dn)
    then show ?thesis using True by simp
  next
    case False
    then show ?thesis by simp
  qed
  show ?thesis
    unfolding flux_val_wind_a[OF assms(3)]
    by (intro DERIV_add up cor)
qed

lemma row_boundary:
  assumes "\<not> (0 < i \<and> i < mx info - 1)" "0 \<le> i" "i < mx info"
  shows "row_entries wind_a info usr i (i, int j) =
          (if i = 0 then scdiag_of info usr * dv j i
           else if i = mx info - 1 then scdiag_of info usr * dv j i
           else - eps usr * (((if i = 1 then 0 else dv j (i - 1)) - 2 * dv j i
                          + (if i = mx info - 2 then 0 else dv j (i + 1)))
                        / (hx_of info * hx_of info)) * hx_of info)"
proof -
  have "i = 0 \<or> i = mx info - 1" using assms by auto
  then show ?thesis
  proof (elim disjE)
    assume "i = 0"
    then show ?thesis by (simp add: row_entries_wind_a dv_def)
  next
    assume "i = mx info - 1"
    then show ?thesis by (simp add: row_entries_wind_a dv_def)
  qed
qed

lemma row_interior_a:
  assumes "0 < i" "i < mx info - 1" "hx_of info \<noteq> 0" "int j = i"
    "jac_limiter_fcn usr = limiter_fcn usr"
  shows "row_entries wind_a info usr i (i, int j) =
     2 * eps usr / hx_of info + 1 + (if limiter_fcn usr = CENTERED then - 1 else 0)"
  using assms by (simp add: row_entries_wind_a)

lemma row_interior:
  assumes "0 < i" "i < mx info - 1" "hx_of info \<noteq> 0"
    "jac_limiter_fcn usr = limiter_fcn usr"
  shows "row_entries wind_a info usr i (i, int j) =
          (- eps usr * (((if i = 1 then 0 else dv j (i - 1)) - 2 * dv j i
                          + (if i = mx info - 2 then 0 else dv j (i + 1)))
                        / (hx_of info * hx_of info)) * hx_of info)
          + (((if i = 0 then 0 else dv j i)
              + (if limiter_fcn usr = CENTERED
                 then ((if i + 1 < mx info - 1 then dv j (i + 1) else 0) - (if i = 0 then 0 else dv j i)) / 2
                 else 0))
             - ((if i - 1 = 0 then 0 else dv j (i - 1))
              + (if limiter_fcn usr = CENTERED
                 then ((if i - 1 + 1 < mx info - 1 then dv j (i - 1 + 1) else 0)
                       - (if i - 1 = 0 then 0 else dv j (i - 1))) / 2
                 else 0)))"
proof -
  have hh: "\<And>X. - eps usr * (X / (hx_of info * hx_of info)) * hx_of info = - (eps usr * X / hx_of info)"
    using assms(3) by (simp add: field_simps)
  consider (a) "int j = i" | (b) "int j = i - 1" | (c) "int j = i + 1"
    | (d) "i \<noteq> int j" "i - 1 \<noteq> int j" "i + 1 \<noteq> int j" by fastforce
  then show ?thesis
  proof cases
    case a
    show ?thesis
      using assms a by (simp add: hh row_entries_wind_a dv_def)
  next
    case b
    show ?thesis
      using assms b by (simp add: hh row_entries_wind_a dv_def)
  next
    case c
    show ?thesis
      using assms c by (simp add: hh row_entries_wind_a dv_def)
  next
    case d
    show ?thesis
      using assms d by (simp add: hh row_entries_wind_a dv_def)
  qed
qed

lemma deriv_res_val:
  assumes d: "\<And>k. 0 \<le> k \<Longrightarrow> ((\<lambda>t. V t k) has_real_derivative dv j k) (at x)"
    and "0 \<le> i" "i < mx info" "limiter_fcn usr \<noteq> VANLEER"
    and "jac_limiter_fcn usr = limiter_fcn usr" "2 \<le> mx info"
  shows "((\<lambda>t. res_val wind_a info usr (V t) i) has_real_derivative
           row_entries wind_a info usr i (i, int j)) (at x)"
proof -
  have h: "hx_of info \<noteq> 0" using hx_pos[OF assms(6)] by simp
  show ?thesis
  proof (cases "0 < i \<and> i < mx info - 1")
    case False
    then have e: "(\<lambda>t. res_val wind_a info usr (V t) i) = (\<lambda>t. cell_val info usr (V t) i)"
      unfolding res_val_def by (simp only: if_False add_0_right simp_thms)
    show ?thesis
      unfolding e row_boundary[OF False assms(2,3)] using d assms(2) by (rule deriv_cell_val)
  next
    case True
    then have i0: "0 < i" and iN: "i < mx info - 1" by simp_all
    have i1: "0 \<le> i - 1" using i0 by simp
    have e: "(\<lambda>t. res_val wind_a info usr (V t) i) =
                  (\<lambda>t. cell_val info usr (V t) i
                    + (flux_val wind_a info usr (V t) i - flux_val wind_a info usr (V t) (i - 1)))"
      unfolding res_val_def by (simp only: True if_True simp_thms)
    have c: "((\<lambda>t. cell_val info usr (V t) i) has_real_derivative
          (- eps usr * (((if i = 1 then 0 else dv j (i - 1)) - 2 * dv j i
                          + (if i = mx info - 2 then 0 else dv j (i + 1)))
                        / (hx_of info * hx_of info)) * hx_of info)) (at x)"
      using deriv_cell_val[of V "dv j" x i info usr, OF d assms(2)] i0 iN by simp
    have f1: "((\<lambda>t. flux_val wind_a info usr (V t) i) has_real_derivative
           ((if i = 0 then 0 else dv j i)
     + (if limiter_fcn usr = CENTERED
        then ((if i + 1 < mx info - 1 then dv j (i + 1) else 0) - (if i = 0 then 0 else dv j i)) / 2
        else 0))) (at x)"
      using d assms(2,4) by (rule deriv_flux_val)
    have f2: "((\<lambda>t. flux_val wind_a info usr (V t) (i - 1)) has_real_derivative
           ((if i - 1 = 0 then 0 else dv j (i - 1))
     + (if limiter_fcn usr = CENTERED
        then ((if i - 1 + 1 < mx info - 1 then dv j (i - 1 + 1) else 0)
               - (if i - 1 = 0 then 0 else dv j (i - 1))) / 2
        else 0))) (at x)"
      using d i1 assms(4) by (rule deriv_flux_val)
    show ?thesis
      unfolding e row_interior[OF i0 iN h assms(5)]
      by (rule DERIV_add[OF c DERIV_diff[OF f1 f2]])
  qed
qed

lemma FormJacobianLocalW_entry:
  assumes "jac_limiter_fcn usr \<noteq> VANLEER" "xs info \<le> i" "i < xs info + xm info"
  shows "FormJacobianLocalW wnd info u P usr =
           (None, jac_loop wnd info usr (xs info) (MatZeroEntries P))"
    and "snd (FormJacobianLocalW wnd info u P usr) (i, c) = row_entries wnd info usr i (i, c)"
  using assms by (simp_all add: FormJacobianLocalW_def jac_loop_closed MatZeroEntries_def)

text \<open>
  Claim C1. On a grid of at least two points, with the same limiter, none or centered, for
  the residual and for the Jacobian, take any worker with an adequate halo, a row \<open>i\<close> it
  owns and a column \<open>j\<close>. The residual is evaluated without fault at every value \<open>t\<close> of the
  component \<open>j\<close> of the trial solution \<open>u\<close>, its entry \<open>i\<close> is a function \<open>F\<close> of \<open>t\<close>, and the
  derivative of \<open>F\<close> at \<open>u\<^sub>j\<close> is the entry \<open>(i, j)\<close> of the matrix that the Jacobian evaluator
  returns, which it returns without error.
\<close>

theorem jacobian_is_derivative:
  assumes "2 \<le> length u" "0 \<le> s" "0 \<le> m" "s + m \<le> int (length u)"
    and "s \<le> i" "i < s + m" "j < length u"
    and "limiter_fcn usr \<noteq> VANLEER" "jac_limiter_fcn usr = limiter_fcn usr"
    and "halo_need w (limiter_fcn usr)"
  shows "\<exists>F. (\<forall>t. entry_at i (FormFunctionLocal (local_info w (int (length u)) s m)
                                (ghosted w (u[j := t]) s m) aF usr) = Inr (F t)) \<and>
             (F has_real_derivative
                snd (FormJacobianLocal (local_info w (int (length u)) s m) (ghosted w u s m) P usr)
                  (i, int j)) (at (u ! j)) \<and>
             fst (FormJacobianLocal (local_info w (int (length u)) s m) (ghosted w u s m) P usr) = None"
proof -
  let ?I = "local_info w (int (length u)) s m"
  let ?F = "\<lambda>t. res_val wind_a ?I usr (\<lambda>k. (u[j := t]) ! nat k) i"
  have ok: "worker_ok ?I" using assms(2,3,4) by (simp add: worker_ok_def local_info_def)
  have sel: "xs ?I = s" "xm ?I = m" "mx ?I = int (length u)" by (simp_all add: local_info_def)
  have res: "entry_at i (FormFunctionLocal ?I (ghosted w (u[j := t]) s m) aF usr) = Inr (?F t)" for t
  proof -
    have "reads_as w (local_info w (int (length (u[j := t]))) s m) (ghosted w (u[j := t]) s m)
            (\<lambda>k. (u[j := t]) ! nat k)"
      using assms(2,3,4) by (intro ghosted_reads) simp_all
    then have ra: "reads_as w ?I (ghosted w (u[j := t]) s m) (\<lambda>k. (u[j := t]) ! nat k)"
      by simp
    show ?thesis
      unfolding FormFunctionLocal_def FormFunctionLocalW_closed[OF ok ra assms(10)]
      using assms(5,6) by (simp add: entry_at_def sel)
  qed
  have jl: "jac_limiter_fcn usr \<noteq> VANLEER" using assms(8,9) by simp
  have own: "xs ?I \<le> i" "i < xs ?I + xm ?I" using assms(5,6) by (simp_all add: sel)
  have J: "snd (FormJacobianLocal ?I (ghosted w u s m) P usr) (i, int j) =
             row_entries wind_a ?I usr i (i, int j)"
    unfolding FormJacobianLocal_def by (rule FormJacobianLocalW_entry(2)[OF jl own])
  have J0: "fst (FormJacobianLocal ?I (ghosted w u s m) P usr) = None"
    unfolding FormJacobianLocal_def FormJacobianLocalW_entry(1)[OF jl own] by simp
  have d: "\<And>k. 0 \<le> k \<Longrightarrow> ((\<lambda>t. (u[j := t]) ! nat k) has_real_derivative dv j k) (at (u ! j))"
    unfolding dv_def using assms(7) by (rule deriv_entry)
  have i0: "0 \<le> i" "i < mx ?I" "2 \<le> mx ?I" using assms(1,2,4,5,6) by (simp_all add: sel)
  have D: "(?F has_real_derivative row_entries wind_a ?I usr i (i, int j)) (at (u ! j))"
    using d i0(1,2) assms(8,9) i0(3) by (rule deriv_res_val)
  show ?thesis
    using res D J J0 by (intro exI[of _ ?F]) simp
qed

theorem jacobian_is_derivative_witness:
  "\<exists>F. (\<forall>t. entry_at 1 (FormFunctionLocal (local_info 2 (int (length [5, 0, 7 :: real])) 0 3)
                                (ghosted 2 ([5, 0, 7][1 := t]) 0 3) zero_store (usr1 CENTERED CENTERED))
               = Inr (F t)) \<and>
             (F has_real_derivative
                snd (FormJacobianLocal (local_info 2 (int (length [5, 0, 7 :: real])) 0 3)
                       (ghosted 2 [5, 0, 7] 0 3) zero_mat (usr1 CENTERED CENTERED))
                  (1, int 1)) (at ([5, 0, 7] ! 1)) \<and>
             fst (FormJacobianLocal (local_info 2 (int (length [5, 0, 7 :: real])) 0 3)
                    (ghosted 2 [5, 0, 7] 0 3) zero_mat (usr1 CENTERED CENTERED)) = None"
proof -
  have h: "2 \<le> length [5, 0, 7 :: real]" "(0::int) \<le> 0" "(0::int) \<le> 3"
    "0 + 3 \<le> int (length [5, 0, 7 :: real])" "(0::int) \<le> 1" "(1::int) < 0 + 3"
    "1 < length [5, 0, 7 :: real]"
    "limiter_fcn (usr1 CENTERED CENTERED) \<noteq> VANLEER"
    "jac_limiter_fcn (usr1 CENTERED CENTERED) = limiter_fcn (usr1 CENTERED CENTERED)"
    "halo_need 2 (limiter_fcn (usr1 CENTERED CENTERED))"
    by (simp_all add: usr1_def halo_need_def)
  show ?thesis
    by (rule jacobian_is_derivative[OF h])
qed

subsection \<open>Pure diffusion\<close>

lemma flux_val_no_wind: "limiter_fcn usr = NONE \<Longrightarrow> flux_val no_wind info usr v i = 0"
  by (simp add: flux_val_def face_speed_def no_wind_def Let_def)

lemma row_entries_no_wind:
  "jac_limiter_fcn usr = NONE \<Longrightarrow> 1 < i \<Longrightarrow> i < mx info - 2 \<Longrightarrow>
   row_entries no_wind info usr i (i, c) =
     (if c = i then 2 * eps usr / hx_of info
      else if c = i - 1 \<or> c = i + 1 then - eps usr / hx_of info else 0)"
  by (simp add: row_entries_def jac_row_def no_wind_def Let_def)

text \<open>
  Claim C7, as the program has it. With a wind that is zero everywhere and no limiter, the
  residual at an owned interior cell \<open>i\<close> is what the first loop stored there (the face loop
  adds nothing), that is \<open>- eps * (uW - 2 * u\<^sub>i + uE) / h\<close> with \<open>uW\<close> the array entry \<open>i - 1\<close>
  except the boundary value 1 when \<open>i = 1\<close> and \<open>uE\<close> the array entry \<open>i + 1\<close> except the
  boundary value 0 when \<open>i = N - 2\<close>; and a row \<open>i\<close> of the Jacobian with \<open>1 < i < N - 2\<close> has
  \<open>2 * eps / h\<close> on the diagonal, \<open>- eps / h\<close> next to it and 0 elsewhere. With the array
  entries at both neighbours, as the claim is worded, the residual part fails on the three
  point grid with array \<open>[5, 0, 7]\<close>.
\<close>

theorem pure_diffusion:
  assumes "worker_ok info" "halo_ok w info au" "1 \<le> w"
    and "limiter_fcn usr = NONE" "jac_limiter_fcn usr = NONE"
    and "xs info \<le> i" "i < xs info + xm info" "0 < i" "i < mx info - 1"
  shows "entry_at i (FormFunctionLocalW no_wind info au aF usr) =
           Inr (- eps usr * ((if i = 1 then 1 else val info au (i - 1)) - 2 * val info au i
                             + (if i = mx info - 2 then 0 else val info au (i + 1)))
                / hx_of info) \<and>
         entry_at i (FormFunctionLocalW no_wind info au aF usr) =
           entry_at i (cell_loop info au usr (xs info) aF) \<and>
         fst (FormJacobianLocalW no_wind info u P usr) = None \<and>
         (1 < i \<and> i < mx info - 2 \<longrightarrow>
            snd (FormJacobianLocalW no_wind info u P usr) (i, c) =
              (if c = i then 2 * eps usr / hx_of info
               else if c = i - 1 \<or> c = i + 1 then - eps usr / hx_of info else 0))"
proof -
  have ra: "reads_as w info au (val info au)" using assms(2) by (rule halo_ok_reads_as)
  have hn: "halo_need w (limiter_fcn usr)" using assms(3,4) by (simp add: halo_need_def)
  have h: "hx_of info \<noteq> 0" using assms(8,9) hx_pos[of info] by simp
  have c: "cell_loop info au usr (xs info) aF =
      Inr (\<lambda>j. if xs info \<le> j \<and> j < xs info + xm info then cell_val info usr (val info au) j
                else aF j)"
    using cell_loop_closed[OF assms(1) ra assms(3), of "xs info" usr aF] by simp
  have F: "FormFunctionLocalW no_wind info au aF usr =
     Inr (\<lambda>j. if xs info \<le> j \<and> j < xs info + xm info
               then res_val no_wind info usr (val info au) j else aF j)"
    by (rule FormFunctionLocalW_closed[OF assms(1) ra hn])
  have rv: "res_val no_wind info usr (val info au) i = cell_val info usr (val info au) i"
    by (simp add: res_val_def flux_val_no_wind[OF assms(4)])
  have a: "entry_at i (FormFunctionLocalW no_wind info au aF usr) =
             Inr (cell_val info usr (val info au) i)"
    using assms(6,7) by (simp add: F entry_at_def rv)
  have b: "entry_at i (cell_loop info au usr (xs info) aF) = Inr (cell_val info usr (val info au) i)"
    using assms(6,7) by (simp add: c entry_at_def)
  have cv: "cell_val info usr (val info au) i =
       - eps usr * ((if i = 1 then 1 else val info au (i - 1)) - 2 * val info au i
                             + (if i = mx info - 2 then 0 else val info au (i + 1)))
                / hx_of info"
    using assms(8,9) h by (simp add: cell_val_def)
  have jl: "jac_limiter_fcn usr \<noteq> VANLEER" using assms(5) by simp
  have J0: "fst (FormJacobianLocalW no_wind info u P usr) = None"
    unfolding FormJacobianLocalW_entry(1)[OF jl assms(6,7)] by simp
  have J: "snd (FormJacobianLocalW no_wind info u P usr) (i, c) = row_entries no_wind info usr i (i, c)"
    by (rule FormJacobianLocalW_entry(2)[OF jl assms(6,7)])
  show ?thesis
    using a b cv J0 J row_entries_no_wind[OF assms(5), of i info c] by simp
qed

theorem pure_diffusion_witness:
  "entry_at 2 (FormFunctionLocalW no_wind info5 [5, 1, 2, 4, 7] zero_store (usr1 NONE NONE)) = Inr (- 2) \<and>
   snd (FormJacobianLocalW no_wind info5 [5, 1, 2, 4, 7] zero_mat (usr1 NONE NONE)) (2, 2) = 4 \<and>
   snd (FormJacobianLocalW no_wind info5 [5, 1, 2, 4, 7] zero_mat (usr1 NONE NONE)) (2, 1) = - 2 \<and>
   snd (FormJacobianLocalW no_wind info5 [5, 1, 2, 4, 7] zero_mat (usr1 NONE NONE)) (2, 3) = - 2 \<and>
   snd (FormJacobianLocalW no_wind info5 [5, 1, 2, 4, 7] zero_mat (usr1 NONE NONE)) (2, 4) = 0"
proof -
  have h: "worker_ok info5" "halo_ok 1 info5 [5, 1, 2, 4, 7]" "(1::nat) \<le> 1"
    "limiter_fcn (usr1 NONE NONE) = NONE" "jac_limiter_fcn (usr1 NONE NONE) = NONE"
    "xs info5 \<le> 2" "2 < xs info5 + xm info5" "(0::int) < 2" "2 < mx info5 - 1"
    by (simp_all add: worker_ok_def halo_ok_def info5_def usr1_def)
  have e: "eps (usr1 NONE NONE) = 1" "hx_of info5 = 1 / 2" "mx info5 = 5"
    "val info5 [5, 1, 2, 4, 7] 1 = 1" "val info5 [5, 1, 2, 4, 7] 2 = 2" "val info5 [5, 1, 2, 4, 7] 3 = 4"
    by (simp_all add: usr1_def hx_of_def info5_def val_def)
  note p = pure_diffusion[OF h, of zero_store "[5, 1, 2, 4, 7]" zero_mat]
  show ?thesis
    using p[of 2] p[of 1] p[of 3] p[of 4] by (simp add: e)
qed

theorem pure_diffusion_counterexample:
  "entry_at 1 (FormFunctionLocalW no_wind info3 [5, 0, 7] zero_store (usr1 NONE NONE)) \<noteq>
     Inr (- eps (usr1 NONE NONE) * (val info3 [5, 0, 7] (1 - 1) - 2 * val info3 [5, 0, 7] 1
                                     + val info3 [5, 0, 7] (1 + 1)) / hx_of info3)"
  by (simp add: FormFunctionLocalW_def cell_loop.simps face_loop.simps cell_value_def
        face_flux_def add_flux_def u_up_at_def face_speed_def no_wind_def
        info3_def usr1_def entry_at_def au_read_def hx_of_def scdiag_of_def val_def Let_def)

subsection \<open>Setting the grid up\<close>

text \<open>
  Claim C5, as the program has it. The setup in \<^verbatim>\<open>main\<close> never fails with \<open>DegenerateGrid\<close>:
  it checks \<open>eps\<close> only. With \<open>eps \<le> 0\<close> it fails with \<open>ConfigurationError\<close>; with \<open>eps > 0\<close> it
  passes an error of the grid library on and succeeds on every grid the library delivers,
  whatever the point count. On a grid of at least two points the spacing is \<open>2 / (N - 1)\<close>, it
  is positive, neighbouring points lie that far apart, and the first and last points lie at
  \<open>-1\<close> and \<open>1\<close>.
\<close>

theorem setup_checks_eps_only:
  "main_setup e limiter jac_limiter fd dm \<noteq> Inl DegenerateGrid \<and>
   (e \<le> 0 \<longrightarrow> main_setup e limiter jac_limiter fd dm = Inl ConfigurationError) \<and>
   (0 < e \<longrightarrow>
      main_setup e limiter jac_limiter fd (Inl code) = Inl (LibraryError code) \<and>
      main_setup e limiter jac_limiter fd (Inr N) =
        Inr (\<lparr>eps = e, limiter_fcn = limiter,
               jac_limiter_fcn = (if fd then NONE else jac_limiter)\<rparr>, N)) \<and>
   (2 \<le> mx info \<longrightarrow>
      hx_of info = 2 / (real_of_int (mx info) - 1) \<and> 0 < hx_of info \<and>
      x_of info 0 = - 1 \<and> x_of info (mx info - 1) = 1 \<and>
      x_of info (i + 1) - x_of info i = hx_of info)"
proof (intro conjI impI)
  show "main_setup e limiter jac_limiter fd dm \<noteq> Inl DegenerateGrid"
    by (cases dm) (simp_all add: main_setup_def Let_def)
next
  assume "e \<le> 0"
  then show "main_setup e limiter jac_limiter fd dm = Inl ConfigurationError"
    by (simp add: main_setup_def)
next
  assume "0 < e"
  then show "main_setup e limiter jac_limiter fd (Inl code) = Inl (LibraryError code)"
    by (simp add: main_setup_def Let_def)
next
  assume "0 < e"
  then show "main_setup e limiter jac_limiter fd (Inr N) =
        Inr (\<lparr>eps = e, limiter_fcn = limiter,
               jac_limiter_fcn = (if fd then NONE else jac_limiter)\<rparr>, N)"
    by (simp add: main_setup_def Let_def)
next
  assume "2 \<le> mx info"
  then show "hx_of info = 2 / (real_of_int (mx info) - 1)" by (simp add: hx_of_def)
next
  assume "2 \<le> mx info"
  then show "0 < hx_of info" by (rule hx_pos)
next
  show "x_of info 0 = - 1" by (simp add: x_of_def)
next
  assume "2 \<le> mx info"
  then have "real_of_int (mx info) - 1 \<noteq> 0" by simp
  then show "x_of info (mx info - 1) = 1" by (simp add: x_of_def hx_of_def field_simps)
next
  show "x_of info (i + 1) - x_of info i = hx_of info"
    by (simp add: x_of_def algebra_simps)
qed

theorem setup_checks_eps_only_witness:
  "main_setup (- 1) NONE NONE False (Inr 3) = Inl ConfigurationError \<and>
   main_setup 1 NONE NONE False (Inl 63) = Inl (LibraryError 63) \<and>
   main_setup 1 NONE NONE False (Inr 3) = Inr (usr1 NONE NONE, 3) \<and>
   hx_of info3 = 1 \<and> x_of info3 0 = - 1 \<and> x_of info3 2 = 1 \<and>
   x_of info3 (1 + 1) - x_of info3 1 = hx_of info3"
proof -
  have h0: "(- 1::real) \<le> 0" by simp
  have h1: "(0::real) < 1" by simp
  have h2: "2 \<le> mx info3" by (simp add: info3_def)
  have m: "mx info3 = 3" by (simp add: info3_def)
  show ?thesis
    using setup_checks_eps_only[of "- 1" NONE NONE False "Inr 3" 63 3 info3 1]
      setup_checks_eps_only[of 1 NONE NONE False "Inr 3" 63 3 info3 1] h0 h1 h2
    by (simp add: usr1_def m)
qed

theorem setup_checks_eps_only_counterexample:
  "main_setup 1 NONE NONE False (Inr 1) = Inr (usr1 NONE NONE, 1)"
  by (simp add: main_setup_def usr1_def)

end
